theory Spec2Isabelle
  imports Complex_Main "HOL-Library.Sublist" "HOL-Library.Word"
begin

section \<open>Python values\<close>

text \<open>
  A Python \<open>str\<close> is a sequence of Unicode code points. It is modelled as a list of
  natural numbers, one per code point, so that \<open>len\<close>, \<open>strip\<close> and \<open>split\<close> count
  what Python counts. \<open>str\<close> embeds an ASCII literal.

  A Python \<open>int\<close> is an \<open>int\<close>. A Python \<open>float\<close> is the real number it denotes. An
  arithmetic operation on floats returns the exact result rounded to a float, and a
  decimal literal denotes the float nearest to it: the rounding \<open>rnd\<close> of the machine is
  a parameter of every definition that computes with floats. \<open>rounding\<close> collects what
  the proofs use of it: it is monotone, and exact on the integers up to \<open>2 ^ 53\<close>, as
  rounding to the nearest double is. \<open>rnd\<close> rounds as if the exponent had no upper
  bound: a result beyond \<open>float_max\<close>, the largest double, is the infinity of the
  machine, and the program's conversions of it to an integer raise \<open>OverflowError\<close>. The
  arguments of the functions are finite floats.
\<close>

type_synonym pystr = "nat list"

definition str :: "string \<Rightarrow> pystr" where
  "str s = map of_char s"

definition rounding :: "(real \<Rightarrow> real) \<Rightarrow> bool" where
  "rounding rnd \<longleftrightarrow>
     (\<forall>x y. x \<le> y \<longrightarrow> rnd x \<le> rnd y) \<and>
     (\<forall>n::int. \<bar>n\<bar> \<le> 2 ^ 53 \<longrightarrow> rnd (of_int n) = of_int n)"

definition float_max :: real where
  "float_max = (2 ^ 53 - 1) * 2 ^ 971"

text \<open>
  What rounding to the nearest double keeps of a number between 0 and 512: an error of
  at most half a unit in the last place of 512.
\<close>

definition accurate :: "(real \<Rightarrow> real) \<Rightarrow> bool" where
  "accurate rnd \<longleftrightarrow> (\<forall>x. 0 \<le> x \<and> x \<le> 512 \<longrightarrow> \<bar>rnd x - x\<bar> \<le> 1 / 2 ^ 44)"

text \<open>
  Every exception the model keeps apart. \<open>CannotDraw\<close> stands for whatever a call of
  the imaging library raises inside \<open>draw_text_block\<close>.
\<close>

datatype error =
  TTSFailed | CannotOpen pystr | CannotResize | CannotDraw | NoClips | OverflowError

text \<open>The characters for which \<open>str.isspace\<close> holds: those \<open>strip()\<close> and \<open>split()\<close> remove.\<close>

definition is_space :: "nat \<Rightarrow> bool" where
  "is_space c \<longleftrightarrow>
     (9 \<le> c \<and> c \<le> 13) \<or> (28 \<le> c \<and> c \<le> 32) \<or> c = 133 \<or> c = 160 \<or> c = 5760 \<or>
     (8192 \<le> c \<and> c \<le> 8202) \<or> c = 8232 \<or> c = 8233 \<or> c = 8239 \<or> c = 8287 \<or> c = 12288"

text \<open>\<open>s.strip()\<close>\<close>

definition py_strip :: "pystr \<Rightarrow> pystr" where
  "py_strip s = rev (dropWhile is_space (rev (dropWhile is_space s)))"

text \<open>
  \<open>s.split(sep)\<close> for a separator: the pieces between the leftmost, non-overlapping
  occurrences of \<open>sep\<close>. \<open>cur\<close> is the piece being read. Python raises \<open>ValueError\<close> on
  an empty separator; the program only passes the literals \<open>"\n\n"\<close> and \<open>"."\<close>, and the
  model then returns the text unsplit.
\<close>

function py_split_from :: "pystr \<Rightarrow> pystr \<Rightarrow> pystr \<Rightarrow> pystr list" where
  "py_split_from sep cur [] = [cur]"
| "py_split_from sep cur (c # cs) =
     (if sep \<noteq> [] \<and> prefix sep (c # cs)
      then cur # py_split_from sep [] (drop (length sep) (c # cs))
      else py_split_from sep (cur @ [c]) cs)"
  by pat_completeness auto
termination
  by (relation "measure (\<lambda>(sep, cur, s). length s)") auto

definition py_split :: "pystr \<Rightarrow> pystr \<Rightarrow> pystr list" where
  "py_split sep s = py_split_from sep [] s"

text \<open>\<open>s.replace(old, new)\<close> for a non-empty \<open>old\<close>: every leftmost, non-overlapping occurrence.\<close>

function py_replace :: "pystr \<Rightarrow> pystr \<Rightarrow> pystr \<Rightarrow> pystr" where
  "py_replace old new [] = []"
| "py_replace old new (c # cs) =
     (if old \<noteq> [] \<and> prefix old (c # cs)
      then new @ py_replace old new (drop (length old) (c # cs))
      else c # py_replace old new cs)"
  by pat_completeness auto
termination
  by (relation "measure (\<lambda>(old, new, s). length s)") auto

text \<open>\<open>sep.join(xs)\<close>\<close>

fun py_join :: "pystr \<Rightarrow> pystr list \<Rightarrow> pystr" where
  "py_join sep [] = []"
| "py_join sep [x] = x"
| "py_join sep (x # y # ys) = x @ sep @ py_join sep (y # ys)"

text \<open>\<open>s.split()\<close> with no argument: the maximal runs of characters that are not whitespace.\<close>

function py_words :: "pystr \<Rightarrow> pystr list" where
  "py_words s =
     (case dropWhile is_space s of
        [] \<Rightarrow> []
      | c # cs \<Rightarrow> takeWhile (\<lambda>x. \<not> is_space x) (c # cs) # py_words (dropWhile (\<lambda>x. \<not> is_space x) cs))"
  by pat_completeness auto
termination
proof (relation "measure length", goal_cases)
  case 1
  show ?case by simp
next
  case (2 s c cs)
  have "length (dropWhile (\<lambda>x. \<not> is_space x) cs) \<le> length cs"
    by (rule length_dropWhile_le)
  moreover have "length (c # cs) \<le> length s"
    using length_dropWhile_le [of is_space s] 2 by simp
  ultimately show ?case by simp
qed

declare py_words.simps [simp del]

section \<open>The script splitter\<close>

text \<open>
  \<open>split_script\<close>, first part: the paragraphs of the text, split at blank lines,
  stripped, the empty ones dropped (\<open>if b.strip()\<close> is true for a non-empty string).
\<close>

definition paragraph_blocks :: "pystr \<Rightarrow> pystr list" where
  "paragraph_blocks text =
     map py_strip (filter (\<lambda>b. py_strip b \<noteq> []) (py_split (str ''\<newline>\<newline>'') text))"

text \<open>
  The fallback loop over the sentence parts: \<open>rough\<close> collects the closed blocks and
  \<open>buf\<close> the sentences of the open one. A block closes when the sentences of \<open>buf\<close>,
  joined by spaces, have at least 18 words.
\<close>

fun sentence_loop :: "pystr list \<Rightarrow> pystr list \<Rightarrow> pystr list \<Rightarrow> pystr list \<times> pystr list" where
  "sentence_loop rough buf [] = (rough, buf)"
| "sentence_loop rough buf (part # parts) =
     (let t = py_strip part in
      if t = [] then sentence_loop rough buf parts
      else
        let buf' = buf @ [t] in
        if length (py_words (py_join (str '' '') buf')) \<ge> 18
        then sentence_loop (rough @ [py_join (str ''. '') buf' @ str ''.'']) [] parts
        else sentence_loop rough buf' parts)"

definition sentence_blocks :: "pystr \<Rightarrow> pystr list" where
  "sentence_blocks text =
     (let (rough, buf) =
        sentence_loop [] []
          (py_split (str ''.'')
             (py_replace (str ''!'') (str ''.'') (py_replace (str ''?'') (str ''.'') text)))
      in if buf \<noteq> [] then rough @ [py_join (str ''. '') buf @ str ''.''] else rough)"

definition split_script :: "pystr \<Rightarrow> pystr list" where
  "split_script text =
     (let blocks = paragraph_blocks text in
      if blocks \<noteq> [] then blocks else sentence_blocks text)"

section \<open>Numbers as text\<close>

text \<open>Python's \<open>round\<close> of a float: the nearest integer, a tie going to the even one.\<close>

definition py_round :: "real \<Rightarrow> int" where
  "py_round x =
     (let f = \<lfloor>x\<rfloor>; d = x - of_int f in
      if d < 1 / 2 then f else if 1 / 2 < d then f + 1 else if even f then f else f + 1)"

text \<open>Python's \<open>int\<close> of a float: truncation towards zero.\<close>

definition py_int :: "real \<Rightarrow> int" where
  "py_int x = (if 0 \<le> x then \<lfloor>x\<rfloor> else \<lceil>x\<rceil>)"

text \<open>
  Rounding to the nearest double, a tie going to the even significand. \<open>binade x\<close> is
  the exponent of \<open>x\<close>, from \<open>-1022\<close> (the subnormal numbers included) to \<open>1023\<close>; a
  double of that exponent is a multiple of \<open>2\<close> to the power \<open>binade x - 52\<close>.
\<close>

fun binade_from :: "nat \<Rightarrow> int \<Rightarrow> real \<Rightarrow> int" where
  "binade_from 0 e x = e"
| "binade_from (Suc n) e x = (if 2 powi (e + 1) \<le> x then binade_from n (e + 1) x else e)"

definition binade :: "real \<Rightarrow> int" where
  "binade x = binade_from 2045 (- 1022) \<bar>x\<bar>"

definition float64 :: "real \<Rightarrow> real" where
  "float64 x = (let q = 2 powi (binade x - 52) in of_int (py_round (x / q)) * q)"

text \<open>The decimal digits of a natural number, most significant first.\<close>

function digits :: "nat \<Rightarrow> pystr" where
  "digits n = (if n < 10 then [48 + n] else digits (n div 10) @ [48 + n mod 10])"
  by pat_completeness auto
termination
  by (relation "measure id") auto

declare digits.simps [simp del]

definition zero_pad :: "nat \<Rightarrow> pystr \<Rightarrow> pystr" where
  "zero_pad w s = replicate (w - length s) 48 @ s"

text \<open>\<open>str(n)\<close> and the format specification \<open>{n:0wd}\<close>: the sign counts towards the width.\<close>

definition py_str_int :: "int \<Rightarrow> pystr" where
  "py_str_int n = (if n < 0 then str ''-'' @ digits (nat (- n)) else digits (nat n))"

definition format_d :: "nat \<Rightarrow> int \<Rightarrow> pystr" where
  "format_d w n =
     (if n < 0 then str ''-'' @ zero_pad (w - 1) (digits (nat (- n)))
      else zero_pad w (digits (nat n)))"

text \<open>Reading a field back: what a run of decimal digits denotes.\<close>

definition is_digit :: "nat \<Rightarrow> bool" where
  "is_digit c \<longleftrightarrow> 48 \<le> c \<and> c \<le> 57"

definition decimal_value :: "pystr \<Rightarrow> nat" where
  "decimal_value s = foldl (\<lambda>a c. 10 * a + (c - 48)) 0 s"

section \<open>Subtitles\<close>

record scene =
  scene_text :: pystr
  bg_image_path :: "pystr option"
  audio_path :: pystr
  duration :: real

text \<open>
  \<open>srt_timestamp\<close>. \<open>srt_fields\<close> splits the milliseconds into hours, minutes, seconds
  and the rest (\<open>//\<close> is floor division, as \<open>div\<close> on \<open>int\<close>). \<open>int(round(x))\<close> raises
  \<open>OverflowError\<close> when the product \<open>seconds * 1000\<close> has overflowed to infinity.
\<close>

definition srt_fields :: "int \<Rightarrow> int \<times> int \<times> int \<times> int" where
  "srt_fields millis =
     (let ms = millis;
          h = ms div 3600000;
          ms = ms - h * 3600000;
          m = ms div 60000;
          ms = ms - m * 60000;
          s = ms div 1000;
          ms = ms - s * 1000
      in (h, m, s, ms))"

definition srt_timestamp :: "(real \<Rightarrow> real) \<Rightarrow> real \<Rightarrow> error + pystr" where
  "srt_timestamp rnd seconds =
     (let product = rnd (seconds * 1000) in
      if float_max < \<bar>product\<bar> then Inl OverflowError
      else
        (case srt_fields (py_round product) of
           (h, m, s, ms) \<Rightarrow>
             Inr (format_d 2 h @ str '':'' @ format_d 2 m @ str '':'' @ format_d 2 s @ str '','' @
                  format_d 3 ms)))"

text \<open>
  The loop of \<open>write_srt_for_scenes\<close>, with its counter \<open>idx\<close>, its clock \<open>t\<close> and the
  \<open>lines\<close> appended so far. When the sum \<open>t + sc.duration\<close> overflows, it is infinite
  and \<open>srt_timestamp\<close> raises on it.
\<close>

fun srt_loop ::
  "(real \<Rightarrow> real) \<Rightarrow> int \<Rightarrow> real \<Rightarrow> pystr list \<Rightarrow> scene list \<Rightarrow> error + pystr list" where
  "srt_loop rnd idx t lines [] = Inr lines"
| "srt_loop rnd idx t lines (sc # scs) =
     (case srt_timestamp rnd t of
        Inl e \<Rightarrow> Inl e
      | Inr start \<Rightarrow>
          let t' = rnd (t + duration sc) in
          if float_max < \<bar>t'\<bar> then Inl OverflowError
          else
            (case srt_timestamp rnd t' of
               Inl e \<Rightarrow> Inl e
             | Inr stop \<Rightarrow>
                 let txt = py_replace (str ''\<newline>'') (str '' '') (py_strip (scene_text sc)) in
                 srt_loop rnd (idx + 1) t'
                   (lines @
                      [py_str_int idx @ str ''\<newline>'' @ start @ str '' --> '' @ stop @
                       str ''\<newline>'' @ txt @ str ''\<newline>''])
                   scs))"

text \<open>The clock of the loop after some scenes: their durations, added one by one.\<close>

definition elapsed :: "(real \<Rightarrow> real) \<Rightarrow> scene list \<Rightarrow> real" where
  "elapsed rnd scs = foldl (\<lambda>t sc. rnd (t + duration sc)) 0 scs"


section \<open>Backgrounds\<close>

text \<open>
  An image is its rows of RGB pixels, top row first; a channel is a byte, as in the
  \<open>uint8\<close> array the gradient is drawn into.
\<close>

type_synonym rgb = "8 word \<times> 8 word \<times> 8 word"
type_synonym image = "rgb list list"
type_synonym colour = "int \<times> int \<times> int"

definition donker :: "colour \<times> colour" where
  "donker = ((15, 23, 42), (30, 41, 59))"

definition THEMES :: "pystr \<rightharpoonup> colour \<times> colour" where
  "THEMES = map_of
     [(str ''Donker'', donker),
      (str ''Licht'', ((245, 246, 248), (225, 229, 235))),
      (str ''Aardetint'', ((39, 57, 47), (98, 125, 103))),
      (str ''Paars'', ((45, 23, 66), (109, 74, 147))),
      (str ''Sunset'', ((255, 94, 98), (255, 195, 113)))]"

text \<open>\<open>THEMES.get(theme, THEMES["Donker"])\<close>\<close>

definition theme_colours :: "pystr \<Rightarrow> colour \<times> colour" where
  "theme_colours theme = (case THEMES theme of Some cs \<Rightarrow> cs | None \<Rightarrow> donker)"

text \<open>
  One channel of a row: \<open>int(c1 * (1 - t) + c2 * t)\<close>, a float computation of four
  operations, and the byte the array keeps of it.
\<close>

definition channel :: "(real \<Rightarrow> real) \<Rightarrow> int \<Rightarrow> int \<Rightarrow> real \<Rightarrow> int" where
  "channel rnd c1 c2 t =
     py_int (rnd (rnd (of_int c1 * rnd (1 - t)) + rnd (of_int c2 * t)))"

definition row_t :: "(real \<Rightarrow> real) \<Rightarrow> nat \<Rightarrow> nat \<Rightarrow> real" where
  "row_t rnd h y = rnd (of_nat y / of_int (max 1 (int h - 1)))"

definition gradient_row ::
  "(real \<Rightarrow> real) \<Rightarrow> nat \<Rightarrow> nat \<Rightarrow> colour \<times> colour \<Rightarrow> nat \<Rightarrow> rgb list" where
  "gradient_row rnd w h cs y =
     (case cs of
        ((r1, g1, b1), (r2, g2, b2)) \<Rightarrow>
          let t = row_t rnd h y;
              r = channel rnd r1 r2 t;
              g = channel rnd g1 g2 t;
              b = channel rnd b1 b2 t
          in replicate w (word_of_int r, word_of_int g, word_of_int b))"

definition make_gradient_bg :: "(real \<Rightarrow> real) \<Rightarrow> nat \<times> nat \<Rightarrow> pystr \<Rightarrow> image" where
  "make_gradient_bg rnd sz theme =
     (case sz of (w, h) \<Rightarrow> map (gradient_row rnd w h (theme_colours theme)) [0..<h])"

text \<open>The size of an image, and an image with an alpha channel.\<close>

definition image_width :: "image \<Rightarrow> nat" where
  "image_width img = (case img of [] \<Rightarrow> 0 | r # _ \<Rightarrow> length r)"

definition image_height :: "image \<Rightarrow> nat" where
  "image_height img = length img"

type_synonym rgba = "8 word \<times> 8 word \<times> 8 word \<times> 8 word"
type_synonym canvas = "rgba list list"

text \<open>A font is a font file at a size, or the default font of the imaging library.\<close>

datatype font = TrueType pystr int | DefaultFont

section \<open>Files and the libraries outside the program\<close>

record settings =
  resolution :: "nat \<times> nat"
  theme :: pystr
  padding_px :: int
  font_path :: "pystr option"
  font_size_pct :: real
  text_box_opacity :: int
  line_spacing :: real
  speed :: real

text \<open>
  A clip as \<open>create_video\<close> builds it: an \<open>ImageClip\<close> of a frame file with its
  duration and the audio of a file, the fades asked of it, and the logo composed over
  it, if any.
\<close>

record clip =
  clip_frame :: pystr
  clip_duration :: real
  clip_audio :: pystr
  crossfadein :: "real option"
  crossfadeout :: "real option"
  logo_overlay :: "pystr option"

text \<open>
  The file system maps a path to what the file decodes to; \<open>'a\<close> is the type of
  decoded audio (an \<open>AudioSegment\<close>). A video file is the concatenation of its clips.
  \<open>uuids_drawn\<close> counts the calls of \<open>uuid.uuid4()\<close> so far.
\<close>

datatype 'a content = AudioFile 'a | ImageFile image | TextFile pystr | VideoFile "clip list"

record 'a world =
  files :: "pystr \<rightharpoonup> 'a content"
  uuids_drawn :: nat

text \<open>
  What the program calls and does not define: the \<open>k\<close>-th value of \<open>uuid.uuid4().hex\<close>,
  the speech service (\<open>None\<close> when it raises), the measures and transformations of
  audio (\<open>mp3_codec\<close> is what an exported mp3 decodes to), and the imaging library:
  resizing, whether a font file loads, the measures of a text (\<open>None\<close> when the call
  raises), \<open>textwrap.wrap\<close>, the conversions between RGB and RGBA, \<open>Image.new\<close> of an RGBA
  image of one colour, \<open>alpha_composite\<close> of a second image at a place, and
  \<open>multiline_text\<close>, which draws a text at a place in a colour, a font, an alignment and
  a line spacing.
\<close>

record 'a library =
  uuid4_hex :: "nat \<Rightarrow> pystr"
  gtts :: "pystr \<Rightarrow> pystr \<Rightarrow> 'a option"
  duration_seconds :: "'a \<Rightarrow> real"
  frame_rate :: "'a \<Rightarrow> int"
  spawn_frame_rate :: "'a \<Rightarrow> int \<Rightarrow> 'a"
  set_frame_rate :: "'a \<Rightarrow> int \<Rightarrow> 'a"
  mp3_codec :: "'a \<Rightarrow> 'a"
  resize :: "nat \<times> nat \<Rightarrow> image \<Rightarrow> image option"
  truetype_loads :: "pystr \<Rightarrow> int \<Rightarrow> bool"
  getlength :: "font \<Rightarrow> pystr \<Rightarrow> real option"
  getbbox :: "font \<Rightarrow> pystr \<Rightarrow> (int \<times> int \<times> int \<times> int) option"
  textwrap_wrap :: "pystr \<Rightarrow> int \<Rightarrow> pystr list"
  multiline_textbbox :: "pystr \<Rightarrow> font \<Rightarrow> int \<Rightarrow> pystr \<Rightarrow> (int \<times> int \<times> int \<times> int) option"
  convert_rgba :: "image \<Rightarrow> canvas"
  convert_rgb :: "canvas \<Rightarrow> image"
  new_rgba :: "int \<times> int \<Rightarrow> int \<times> int \<times> int \<times> int \<Rightarrow> canvas option"
  alpha_composite :: "canvas \<Rightarrow> canvas \<Rightarrow> int \<times> int \<Rightarrow> canvas option"
  multiline_text ::
    "canvas \<Rightarrow> int \<times> int \<Rightarrow> pystr \<Rightarrow> int \<times> int \<times> int \<times> int \<Rightarrow> font \<Rightarrow> pystr \<Rightarrow> int \<Rightarrow> canvas"

definition fresh_uuid :: "'a library \<Rightarrow> 'a world \<Rightarrow> pystr \<times> 'a world" where
  "fresh_uuid lib w = (uuid4_hex lib (uuids_drawn w), w\<lparr>uuids_drawn := Suc (uuids_drawn w)\<rparr>)"

definition write_file :: "pystr \<Rightarrow> 'a content \<Rightarrow> 'a world \<Rightarrow> 'a world" where
  "write_file p f w = w\<lparr>files := (files w)(p \<mapsto> f)\<rparr>"

text \<open>\<open>AudioSegment.from_file\<close> and \<open>Image.open\<close> raise on a file that is missing or of another kind.\<close>

definition audio_from_file :: "'a world \<Rightarrow> pystr \<Rightarrow> error + 'a" where
  "audio_from_file w p =
     (case files w p of Some (AudioFile a) \<Rightarrow> Inr a | _ \<Rightarrow> Inl (CannotOpen p))"

definition image_open :: "'a world \<Rightarrow> pystr \<Rightarrow> error + image" where
  "image_open w p =
     (case files w p of Some (ImageFile img) \<Rightarrow> Inr img | _ \<Rightarrow> Inl (CannotOpen p))"

section \<open>Speech\<close>

definition tts_to_mp3 ::
  "'a library \<Rightarrow> pystr \<Rightarrow> pystr \<Rightarrow> 'a world \<Rightarrow> error + ((pystr \<times> real) \<times> 'a world)" where
  "tts_to_mp3 lib txt lang w =
     (let (u, w1) = fresh_uuid lib w;
          mp3_path = str ''tmp/tts_'' @ u @ str ''.mp3''
      in case gtts lib txt lang of
           None \<Rightarrow> Inl TTSFailed
         | Some a \<Rightarrow>
             let w2 = write_file mp3_path (AudioFile a) w1 in
             (case audio_from_file w2 mp3_path of
                Inl e \<Rightarrow> Inl e
              | Inr audio \<Rightarrow> Inr ((mp3_path, duration_seconds lib audio), w2)))"

text \<open>
  The stretch of \<open>change_speed\<close>: the samples are given the frame rate
  \<open>int(audio.frame_rate * speed)\<close> and then resampled to the frame rate they had.
\<close>

definition time_stretch :: "'a library \<Rightarrow> (real \<Rightarrow> real) \<Rightarrow> 'a \<Rightarrow> real \<Rightarrow> 'a" where
  "time_stretch lib rnd audio spd =
     (let new_frame_rate = py_int (rnd (of_int (frame_rate lib audio) * spd))
      in set_frame_rate lib (spawn_frame_rate lib audio new_frame_rate) (frame_rate lib audio))"

text \<open>The test \<open>abs(speed - 1.0) < 1e-3\<close>, in floats.\<close>

definition unit_speed :: "(real \<Rightarrow> real) \<Rightarrow> real \<Rightarrow> bool" where
  "unit_speed rnd spd \<longleftrightarrow> \<bar>rnd (spd - 1)\<bar> < rnd (1 / 1000)"

definition change_speed ::
  "'a library \<Rightarrow> (real \<Rightarrow> real) \<Rightarrow> pystr \<Rightarrow> real \<Rightarrow> 'a world \<Rightarrow>
   error + ((pystr \<times> real) \<times> 'a world)" where
  "change_speed lib rnd input_path spd w =
     (case audio_from_file w input_path of
        Inl e \<Rightarrow> Inl e
      | Inr audio \<Rightarrow>
          if unit_speed rnd spd
          then Inr ((input_path, duration_seconds lib audio), w)
          else
            let sped = time_stretch lib rnd audio spd;
                (u, w1) = fresh_uuid lib w;
                out_path = str ''tmp/tts_speed_'' @ u @ str ''.mp3'';
                w2 = write_file out_path (AudioFile (mp3_codec lib sped)) w1
            in (case audio_from_file w2 out_path of
                  Inl e \<Rightarrow> Inl e
                | Inr a \<Rightarrow> Inr ((out_path, duration_seconds lib a), w2)))"

section \<open>Frames\<close>

text \<open>
  The background of a frame: \<open>if bg_image_path\<close> holds for a path that is not empty,
  and \<open>except Exception\<close> catches whatever opening, decoding or resizing raises.
\<close>

definition scene_background ::
  "'a library \<Rightarrow> (real \<Rightarrow> real) \<Rightarrow> nat \<times> nat \<Rightarrow> pystr \<Rightarrow> pystr option \<Rightarrow> 'a world \<Rightarrow> image" where
  "scene_background lib rnd sz thm bg w =
     (case bg of
        None \<Rightarrow> make_gradient_bg rnd sz thm
      | Some p \<Rightarrow>
          if p = [] then make_gradient_bg rnd sz thm
          else
            (case image_open w p of
               Inl e \<Rightarrow> make_gradient_bg rnd sz thm
             | Inr img \<Rightarrow>
                 (case resize lib sz img of
                    None \<Rightarrow> make_gradient_bg rnd sz thm
                  | Some base \<Rightarrow> base)))"

text \<open>
  \<open>draw_text_block\<close>. The font is the font file at the size computed, when a path is
  given and the file loads, and the default font otherwise. The width of an \<open>M\<close> is
  its length, or the right edge of its box when the length cannot be had. The caption
  is wrapped to \<open>max_chars\<close> characters a line and measured; a box of its size plus the
  padding, black at the opacity of the settings, is composed over the background where
  the text will stand, centred; the wrapped caption is drawn over it in white. A
  measure, a box or a composition that raises ends \<open>draw_text_block\<close> with its
  exception.
\<close>

definition block_font :: "'a library \<Rightarrow> pystr option \<Rightarrow> int \<Rightarrow> font" where
  "block_font lib path font_size =
     (case path of
        None \<Rightarrow> DefaultFont
      | Some p \<Rightarrow> if p \<noteq> [] \<and> truetype_loads lib p font_size then TrueType p font_size else DefaultFont)"

definition char_width :: "'a library \<Rightarrow> font \<Rightarrow> real option" where
  "char_width lib fnt =
     (case getlength lib fnt (str ''M'') of
        Some l \<Rightarrow> Some l
      | None \<Rightarrow>
          (case getbbox lib fnt (str ''M'') of
             None \<Rightarrow> None
           | Some (x0, y0, x1, y1) \<Rightarrow> Some (of_int x1)))"

definition draw_text_block ::
  "'a library \<Rightarrow> (real \<Rightarrow> real) \<Rightarrow> image \<Rightarrow> pystr \<Rightarrow> int \<Rightarrow> pystr option \<Rightarrow> real \<Rightarrow> real \<Rightarrow> int \<Rightarrow>
   error + image" where
  "draw_text_block lib rnd base txt pad path size_pct spacing_x opacity =
     (let img = convert_rgba lib base;
          w = int (image_width base);
          h = int (image_height base);
          font_size = max 18 (py_int (rnd (of_int h * size_pct)));
          fnt = block_font lib path font_size
      in case char_width lib fnt of
           None \<Rightarrow> Inl CannotDraw
         | Some avg_char_w \<Rightarrow>
             let max_chars = max 10 (py_int (rnd (of_int (w - 2 * pad) / max 1 avg_char_w)));
                 wrapped = py_join (str ''\<newline>'') (textwrap_wrap lib txt max_chars);
                 spacing = py_int (rnd (of_int font_size * rnd (spacing_x - 1)))
             in (case multiline_textbbox lib wrapped fnt spacing (str ''center'') of
                   None \<Rightarrow> Inl CannotDraw
                 | Some (x0, y0, x1, y1) \<Rightarrow>
                     let text_w = x1 - x0;
                         text_h = y1 - y0;
                         x = (w - text_w) div 2;
                         y = (h - text_h) div 2
                     in (case new_rgba lib (text_w + 2 * pad, text_h + 2 * pad) (0, 0, 0, opacity) of
                           None \<Rightarrow> Inl CannotDraw
                         | Some box \<Rightarrow>
                             (case alpha_composite lib img box (x - pad, y - pad) of
                                None \<Rightarrow> Inl CannotDraw
                              | Some boxed \<Rightarrow>
                                  Inr (convert_rgb lib
                                         (multiline_text lib boxed (x, y) wrapped
                                            (255, 255, 255, 255) fnt (str ''center'') spacing))))))"

definition build_scene_image ::
  "'a library \<Rightarrow> (real \<Rightarrow> real) \<Rightarrow> nat \<times> nat \<Rightarrow> pystr \<Rightarrow> pystr \<Rightarrow> pystr option \<Rightarrow> settings \<Rightarrow>
   'a world \<Rightarrow> error + image" where
  "build_scene_image lib rnd sz thm txt bg st w =
     (let base = scene_background lib rnd sz thm bg w;
          composed = draw_text_block lib rnd base txt (padding_px st) (font_path st)
                       (font_size_pct st) (line_spacing st) (text_box_opacity st)
      in composed)"

definition save_pil_image :: "'a library \<Rightarrow> image \<Rightarrow> 'a world \<Rightarrow> pystr \<times> 'a world" where
  "save_pil_image lib img w =
     (let (u, w1) = fresh_uuid lib w;
          path = str ''tmp/frame_'' @ u @ str ''.png''
      in (path, write_file path (ImageFile img) w1))"

section \<open>The render loop\<close>

text \<open>
  The body of the loop over the blocks, for block \<open>blk\<close> at index \<open>i\<close>. A failure of
  the speech service stops the run; any other exception ends it as well.
\<close>

definition render_scene ::
  "'a library \<Rightarrow> (real \<Rightarrow> real) \<Rightarrow> settings \<Rightarrow> pystr \<Rightarrow> pystr list \<Rightarrow> nat \<Rightarrow> pystr \<Rightarrow>
   'a world \<Rightarrow> error + (scene \<times> 'a world)" where
  "render_scene lib rnd st lang bg_paths i blk w =
     (case tts_to_mp3 lib blk lang w of
        Inl e \<Rightarrow> Inl e
      | Inr ((mp3_path, dur), w1) \<Rightarrow>
          (case change_speed lib rnd mp3_path (speed st) w1 of
             Inl e \<Rightarrow> Inl e
           | Inr ((mp3_path, dur), w2) \<Rightarrow>
               let bg = (if i < length bg_paths then Some (bg_paths ! i) else None) in
               (case build_scene_image lib rnd (resolution st) (theme st) blk bg st w2 of
                  Inl e \<Rightarrow> Inl e
                | Inr frame_img \<Rightarrow>
                    let (frame_path, w3) = save_pil_image lib frame_img w2 in
                    Inr (\<lparr>scene_text = blk, bg_image_path = Some frame_path,
                          audio_path = mp3_path, duration = dur\<rparr>, w3))))"

text \<open>The loop, with the scenes built so far.\<close>

fun render_scenes ::
  "'a library \<Rightarrow> (real \<Rightarrow> real) \<Rightarrow> settings \<Rightarrow> pystr \<Rightarrow> pystr list \<Rightarrow> nat \<Rightarrow> pystr list \<Rightarrow>
   scene list \<Rightarrow> 'a world \<Rightarrow> error + (scene list \<times> 'a world)" where
  "render_scenes lib rnd st lang bg_paths i [] scenes w = Inr (scenes, w)"
| "render_scenes lib rnd st lang bg_paths i (blk # blocks) scenes w =
     (case render_scene lib rnd st lang bg_paths i blk w of
        Inl e \<Rightarrow> Inl e
      | Inr (sc, w3) \<Rightarrow> render_scenes lib rnd st lang bg_paths (Suc i) blocks (scenes @ [sc]) w3)"

text \<open>
  The audio file attached to a scene has the duration the scene records. The audio a
  scene should carry: the synthesized speech, stretched and encoded unless the speed
  is the unit.
\<close>

definition audio_matches :: "'a library \<Rightarrow> 'a world \<Rightarrow> scene \<Rightarrow> bool" where
  "audio_matches lib w sc =
     (case files w (audio_path sc) of
        Some (AudioFile a) \<Rightarrow> duration sc = duration_seconds lib a
      | _ \<Rightarrow> False)"

definition scene_audio :: "'a library \<Rightarrow> (real \<Rightarrow> real) \<Rightarrow> real \<Rightarrow> 'a \<Rightarrow> 'a" where
  "scene_audio lib rnd spd a =
     (if unit_speed rnd spd then a else mp3_codec lib (time_stretch lib rnd a spd))"

text \<open>
  No two of the first \<open>n\<close> identifiers drawn are the same, and all have the same length
  (32 hexadecimal digits).
\<close>

definition fresh_uuids :: "'a library \<Rightarrow> nat \<Rightarrow> bool" where
  "fresh_uuids lib n \<longleftrightarrow>
     (\<forall>i<n. \<forall>j<n. length (uuid4_hex lib i) = length (uuid4_hex lib j) \<and>
        (uuid4_hex lib i = uuid4_hex lib j \<longrightarrow> i = j))"

section \<open>The video\<close>

text \<open>
  The logo of \<open>create_video\<close>, rendered once as a small file: \<open>None\<close> when no logo is
  given, when its file does not exist, or when anything in the \<open>try\<close> block raises
  (a division by a zero width among them).
\<close>

definition render_logo ::
  "'a library \<Rightarrow> (real \<Rightarrow> real) \<Rightarrow> nat \<Rightarrow> pystr option \<Rightarrow> 'a world \<Rightarrow> pystr option \<times> 'a world" where
  "render_logo lib rnd W logo_path w =
     (case logo_path of
        None \<Rightarrow> (None, w)
      | Some p \<Rightarrow>
          if p = [] \<or> files w p = None then (None, w)
          else
            (case image_open w p of
               Inl e \<Rightarrow> (None, w)
             | Inr logo_img \<Rightarrow>
                 let target_w = max 64 (py_int (rnd (of_nat W * rnd (12 / 100)))) in
                 if image_width logo_img = 0 then (None, w)
                 else
                   let ratio = rnd (of_int target_w / of_nat (image_width logo_img));
                       target_h = py_int (rnd (of_nat (image_height logo_img) * ratio))
                   in (case resize lib (nat target_w, nat target_h) logo_img of
                         None \<Rightarrow> (None, w)
                       | Some small \<Rightarrow>
                           let (u, w1) = fresh_uuid lib w;
                               path = str ''tmp/logo_'' @ u @ str ''.png''
                           in (Some path, write_file path (ImageFile small) w1))))"

text \<open>
  The loop of \<open>create_video\<close> over \<open>enumerate(scenes)\<close>: \<open>n\<close> is \<open>len(scenes)\<close>, \<open>i\<close> the
  index and \<open>clips\<close> the clips appended so far. The literal \<open>0.4\<close> is the float nearest
  to it.
\<close>

fun make_clips ::
  "'a library \<Rightarrow> (real \<Rightarrow> real) \<Rightarrow> settings \<Rightarrow> nat \<times> nat \<Rightarrow> pystr option \<Rightarrow> nat \<Rightarrow> nat \<Rightarrow>
   scene list \<Rightarrow> clip list \<Rightarrow> 'a world \<Rightarrow> error + (clip list \<times> 'a world)" where
  "make_clips lib rnd st sz logo n i [] clips w = Inr (clips, w)"
| "make_clips lib rnd st sz logo n i (sc # scs) clips w =
     (case (case bg_image_path sc of
              None \<Rightarrow> Inr (make_gradient_bg rnd sz (theme st))
            | Some p \<Rightarrow>
                if p = [] then Inr (make_gradient_bg rnd sz (theme st)) else image_open w p) of
        Inl e \<Rightarrow> Inl e
      | Inr img \<Rightarrow>
          (case resize lib sz img of
             None \<Rightarrow> Inl CannotResize
           | Some img \<Rightarrow>
               let (frame_path, w1) = save_pil_image lib img w in
               (case audio_from_file w1 (audio_path sc) of
                  Inl e \<Rightarrow> Inl e
                | Inr audio \<Rightarrow>
                    let base =
                      \<lparr>clip_frame = frame_path, clip_duration = duration sc,
                       clip_audio = audio_path sc,
                       crossfadein = (if 0 < i then Some (rnd (4 / 10)) else None),
                       crossfadeout = (if int i < int n - 1 then Some (rnd (4 / 10)) else None),
                       logo_overlay = logo\<rparr>
                    in make_clips lib rnd st sz logo n (Suc i) scs (clips @ [base]) w1)))"

text \<open>
  \<open>create_video\<close>: the clips are handed to \<open>concatenate_videoclips\<close> in the order of the
  list, with \<open>method="compose"\<close> and no other argument, and the result is encoded to the
  output file. The second identifier names the temporary audio file of the encoder,
  which the encoder removes. An empty list of clips makes the concatenation raise.
\<close>

definition create_video ::
  "'a library \<Rightarrow> (real \<Rightarrow> real) \<Rightarrow> scene list \<Rightarrow> settings \<Rightarrow> nat \<times> nat \<Rightarrow> pystr option \<Rightarrow>
   'a world \<Rightarrow> error + (pystr \<times> 'a world)" where
  "create_video lib rnd scenes st sz logo_path w =
     (let (logo, w1) = render_logo lib rnd (fst sz) logo_path w in
      case make_clips lib rnd st sz logo (length scenes) 0 scenes [] w1 of
        Inl e \<Rightarrow> Inl e
      | Inr (clips, w2) \<Rightarrow>
          if clips = [] then Inl NoClips
          else
            let (u, w3) = fresh_uuid lib w2;
                out_path = str ''output/text2video_'' @ u @ str ''.mp4'';
                (u', w4) = fresh_uuid lib w3
            in Inr (out_path, write_file out_path (VideoFile clips) w4))"

text \<open>
  When the clips of a video play. \<open>concatenate_videoclips\<close> belongs to the video
  library, not to the program; by its documentation it plays the clips one after the
  other, each starting when the one before ends, unless a (negative) \<open>padding\<close> is
  passed to make them overlap. \<open>create_video\<close> passes none.
\<close>

definition clip_start :: "(real \<Rightarrow> real) \<Rightarrow> clip list \<Rightarrow> nat \<Rightarrow> real" where
  "clip_start rnd clips k = foldl (\<lambda>t c. rnd (t + clip_duration c)) 0 (take k clips)"

definition on_screen :: "(real \<Rightarrow> real) \<Rightarrow> clip list \<Rightarrow> nat \<Rightarrow> real \<Rightarrow> bool" where
  "on_screen rnd clips k t \<longleftrightarrow>
     k < length clips \<and> clip_start rnd clips k \<le> t \<and> t < clip_start rnd clips (Suc k)"

section \<open>Writing the subtitles\<close>

definition write_srt_for_scenes ::
  "(real \<Rightarrow> real) \<Rightarrow> scene list \<Rightarrow> pystr \<Rightarrow> 'a world \<Rightarrow> error + 'a world" where
  "write_srt_for_scenes rnd scenes srt_path w =
     (case srt_loop rnd 1 0 [] scenes of
        Inl e \<Rightarrow> Inl e
      | Inr lines \<Rightarrow> Inr (write_file srt_path (TextFile (py_join (str ''\<newline>'') lines)) w))"

section \<open>The names of temporary files\<close>

text \<open>
  The paths the render loop gives to audio files and to frames when it draws the
  identifiers numbered from \<open>n\<close> up to, and not including, \<open>m\<close>.
\<close>

definition audio_names :: "'a library \<Rightarrow> nat \<Rightarrow> nat \<Rightarrow> pystr set" where
  "audio_names lib n m =
     {str ''tmp/tts_'' @ uuid4_hex lib k @ str ''.mp3'' | k. n \<le> k \<and> k < m} \<union>
     {str ''tmp/tts_speed_'' @ uuid4_hex lib k @ str ''.mp3'' | k. n \<le> k \<and> k < m}"

definition frame_names :: "'a library \<Rightarrow> nat \<Rightarrow> nat \<Rightarrow> pystr set" where
  "frame_names lib n m = {str ''tmp/frame_'' @ uuid4_hex lib k @ str ''.png'' | k. n \<le> k \<and> k < m}"

section \<open>A library and a file system for examples\<close>

text \<open>
  A script of five sentences and 22 words without a blank line. For the library: audio
  is its length in seconds, at 24000 frames a second; speech takes a tenth of a
  second per character; the identifiers count up; resizing gives a black image; the
  box sets the blue channel of every pixel to 7, and drawing a text sets the green
  channel of every pixel to the length of the text.
\<close>

definition demo_script :: pystr where
  "demo_script =
     str (''One two three four five. Six seven eight nine ten! '' @
          ''Eleven twelve thirteen fourteen fifteen? Sixteen seventeen eighteen nineteen twenty. '' @
          ''Last one.'')"

definition demo_lib :: "real library" where
  "demo_lib =
     \<lparr>uuid4_hex = (\<lambda>k. zero_pad 32 (digits k)),
      gtts = (\<lambda>txt lang. if txt = [] then None else Some (real (length txt) / 10)),
      duration_seconds = (\<lambda>a. a),
      frame_rate = (\<lambda>a. 24000),
      spawn_frame_rate = (\<lambda>a r. a * 24000 / real_of_int r),
      set_frame_rate = (\<lambda>a r. a),
      mp3_codec = (\<lambda>a. a),
      resize = (\<lambda>sz img. Some (replicate (snd sz) (replicate (fst sz) (0, 0, 0)))),
      truetype_loads = (\<lambda>p n. False),
      getlength = (\<lambda>fnt s. Some (10 * real (length s))),
      getbbox = (\<lambda>fnt s. Some (0, 0, 10 * int (length s), 10)),
      textwrap_wrap = (\<lambda>txt n. [txt]),
      multiline_textbbox = (\<lambda>txt fnt spacing align. Some (0, 0, 10 * int (length txt), 10)),
      convert_rgba = map (map (\<lambda>(r, g, b). (r, g, b, 255))),
      convert_rgb = map (map (\<lambda>(r, g, b, a). (r, g, b))),
      new_rgba = (\<lambda>sz c. if fst sz < 0 \<or> snd sz < 0 then None else Some []),
      alpha_composite = (\<lambda>img box dest. Some (map (map (\<lambda>(r, g, b, a). (r, g, 7, a))) img)),
      multiline_text =
        (\<lambda>img pos txt fill fnt align spacing.
           map (map (\<lambda>(r, g, b, a). (r, of_nat (length txt), b, a))) img)\<rparr>"

definition demo_settings :: settings where
  "demo_settings =
     \<lparr>resolution = (2, 2), theme = str ''Donker'', padding_px = 40, font_path = None,
      font_size_pct = 65 / 1000, text_box_opacity = 140, line_spacing = 12 / 10, speed = 1\<rparr>"

definition demo_world :: "real world" where
  "demo_world =
     \<lparr>files = [str ''a.mp3'' \<mapsto> AudioFile 2, str ''bg.png'' \<mapsto> ImageFile [[(1, 2, 3)]]],
      uuids_drawn = 0\<rparr>"

definition demo_scenes :: "scene list" where
  "demo_scenes =
     [\<lparr>scene_text = str '' Een\<newline>twee '', bg_image_path = None, audio_path = str ''a.mp3'',
       duration = 3 / 2\<rparr>,
      \<lparr>scene_text = str ''Drie'', bg_image_path = Some (str ''bg.png''),
       audio_path = str ''a.mp3'', duration = 2\<rparr>]"

section \<open>Properties of the script splitter\<close>

lemma py_strip_nonempty_iff: "py_strip s \<noteq> [] \<longleftrightarrow> (\<exists>c\<in>set s. \<not> is_space c)"
proof
  assume "py_strip s \<noteq> []"
  then have "dropWhile is_space (rev (dropWhile is_space s)) \<noteq> []"
    by (simp add: py_strip_def)
  then obtain c where "c \<in> set (rev (dropWhile is_space s))" "\<not> is_space c"
    by (auto simp: dropWhile_eq_Nil_conv)
  then have "c \<in> set s" using set_dropWhileD by fastforce
  with \<open>\<not> is_space c\<close> show "\<exists>c\<in>set s. \<not> is_space c" by blast
next
  assume "\<exists>c\<in>set s. \<not> is_space c"
  then have ne: "dropWhile is_space s \<noteq> []"
    by (auto simp: dropWhile_eq_Nil_conv)
  then have "\<not> is_space (hd (dropWhile is_space s))"
    by (rule hd_dropWhile)
  moreover have "hd (dropWhile is_space s) \<in> set (rev (dropWhile is_space s))"
    using ne by simp
  ultimately have "dropWhile is_space (rev (dropWhile is_space s)) \<noteq> []"
    by (auto simp: dropWhile_eq_Nil_conv)
  then show "py_strip s \<noteq> []" by (simp add: py_strip_def)
qed

lemma set_py_strip: "set (py_strip s) \<subseteq> set s"
proof -
  have "set (py_strip s) \<subseteq> set (dropWhile is_space s)"
    unfolding py_strip_def using set_dropWhileD by fastforce
  also have "\<dots> \<subseteq> set s" using set_dropWhileD by fastforce
  finally show ?thesis .
qed

lemma py_strip_strip_nonempty: "py_strip s \<noteq> [] \<Longrightarrow> py_strip (py_strip s) \<noteq> []"
proof -
  assume a: "py_strip s \<noteq> []"
  let ?d = "dropWhile is_space (rev (dropWhile is_space s))"
  from a have ne: "?d \<noteq> []" by (simp add: py_strip_def)
  then have "\<not> is_space (hd ?d)" by (rule hd_dropWhile)
  moreover have "hd ?d \<in> set (py_strip s)" using ne by (simp add: py_strip_def)
  ultimately show ?thesis by (auto simp: py_strip_nonempty_iff)
qed

lemma set_py_split_from:
  "p \<in> set (py_split_from sep cur s) \<Longrightarrow> set p \<subseteq> set cur \<union> set s"
proof (induction sep cur s rule: py_split_from.induct)
  case (1 sep cur)
  then show ?case by simp
next
  case (2 sep cur c cs)
  show ?case
  proof (cases "sep \<noteq> [] \<and> prefix sep (c # cs)")
    case True
    with 2 have "p = cur \<or> p \<in> set (py_split_from sep [] (drop (length sep) (c # cs)))"
      by simp
    then show ?thesis
    proof
      assume "p = cur" then show ?thesis by auto
    next
      assume "p \<in> set (py_split_from sep [] (drop (length sep) (c # cs)))"
      with 2 True have "set p \<subseteq> set [] \<union> set (drop (length sep) (c # cs))" by blast
      moreover have "set (drop (length sep) (c # cs)) \<subseteq> set (c # cs)" by (rule set_drop_subset)
      ultimately show ?thesis by auto
    qed
  next
    case False
    with 2 have "p \<in> set (py_split_from sep (cur @ [c]) cs)" by auto
    with 2 False have "set p \<subseteq> set (cur @ [c]) \<union> set cs" by blast
    then show ?thesis by auto
  qed
qed

lemma set_py_split: "p \<in> set (py_split sep s) \<Longrightarrow> set p \<subseteq> set s"
  using set_py_split_from [of p sep "[]" s] by (simp add: py_split_def)

lemma py_split_from_no_sep:
  "\<forall>i. \<not> prefix sep (drop i s) \<Longrightarrow> py_split_from sep cur s = [cur @ s]"
proof (induction s arbitrary: cur)
  case Nil
  then show ?case by simp
next
  case (Cons c cs)
  from Cons.prems have "\<not> prefix sep (drop 0 (c # cs))" by blast
  then have np: "\<not> prefix sep (c # cs)" by simp
  have "\<forall>i. \<not> prefix sep (drop i cs)"
  proof
    fix i from Cons.prems have "\<not> prefix sep (drop (Suc i) (c # cs))" by blast
    then show "\<not> prefix sep (drop i cs)" by simp
  qed
  then have "py_split_from sep (cur @ [c]) cs = [(cur @ [c]) @ cs]" by (rule Cons.IH)
  with np show ?case by simp
qed

lemma py_replace_absent: "a \<notin> set s \<Longrightarrow> py_replace [a] new s = s"
  by (induction s) auto

lemma py_replace_char: "py_replace [a] [b] s = map (\<lambda>c. if c = a then b else c) s"
  by (induction s) auto

lemma sentence_loop_skip:
  "\<forall>p\<in>set parts. py_strip p = [] \<Longrightarrow> sentence_loop rough buf parts = (rough, buf)"
  by (induction parts) auto

lemma block_nonempty: "py_strip (py_join (str ''. '') buf @ str ''.'') \<noteq> []"
  by (auto simp: py_strip_nonempty_iff str_def is_space_def)

lemma sentence_loop_nonempty:
  "\<forall>b\<in>set rough. py_strip b \<noteq> [] \<Longrightarrow> sentence_loop rough buf parts = (rough', buf')
   \<Longrightarrow> \<forall>b\<in>set rough'. py_strip b \<noteq> []"
proof (induction parts arbitrary: rough buf)
  case Nil
  then show ?case by simp
next
  case (Cons part parts)
  show ?case
  proof (cases "py_strip part = []")
    case True
    with Cons.prems have "sentence_loop rough buf parts = (rough', buf')" by simp
    with Cons.IH Cons.prems(1) show ?thesis by blast
  next
    case False
    let ?buf = "buf @ [py_strip part]"
    show ?thesis
    proof (cases "length (py_words (py_join (str '' '') ?buf)) \<ge> 18")
      case True
      with False Cons.prems
      have "sentence_loop (rough @ [py_join (str ''. '') ?buf @ str ''.'']) [] parts = (rough', buf')"
        by (simp add: Let_def)
      moreover have "\<forall>b\<in>set (rough @ [py_join (str ''. '') ?buf @ str ''.'']). py_strip b \<noteq> []"
        using Cons.prems(1) block_nonempty by auto
      ultimately show ?thesis using Cons.IH by blast
    next
      case F2: False
      with False Cons.prems have "sentence_loop rough ?buf parts = (rough', buf')"
        by (simp add: Let_def)
      with Cons.IH Cons.prems(1) show ?thesis by blast
    qed
  qed
qed

lemma sentence_blocks_nonempty: "b \<in> set (sentence_blocks text) \<Longrightarrow> py_strip b \<noteq> []"
proof -
  assume a: "b \<in> set (sentence_blocks text)"
  obtain rough buf where l: "sentence_loop [] []
          (py_split (str ''.'')
             (py_replace (str ''!'') (str ''.'') (py_replace (str ''?'') (str ''.'') text))) = (rough, buf)"
    by (cases "sentence_loop [] []
          (py_split (str ''.'')
             (py_replace (str ''!'') (str ''.'') (py_replace (str ''?'') (str ''.'') text)))") 
  then have r: "\<forall>b\<in>set rough. py_strip b \<noteq> []"
    using sentence_loop_nonempty [of "[]" "[]" _ rough buf] by simp
  from a l have "b \<in> set rough \<or> b = py_join (str ''. '') buf @ str ''.''"
    by (auto simp: sentence_blocks_def split: if_splits)
  with r block_nonempty show ?thesis by blast
qed

lemma paragraph_blocks_nonempty: "b \<in> set (paragraph_blocks text) \<Longrightarrow> py_strip b \<noteq> []"
  by (auto simp: paragraph_blocks_def dest: py_strip_strip_nonempty)

lemma space_only_paragraphs:
  "\<forall>c\<in>set text. is_space c \<Longrightarrow> paragraph_blocks text = []"
proof -
  assume a: "\<forall>c\<in>set text. is_space c"
  have "py_strip b = []" if "b \<in> set (py_split (str ''\<newline>\<newline>'') text)" for b
    using set_py_split [OF that] a py_strip_nonempty_iff [of b] by blast
  then show ?thesis by (simp add: paragraph_blocks_def filter_empty_conv)
qed

lemma space_only_sentences:
  "\<forall>c\<in>set text. is_space c \<Longrightarrow> sentence_blocks text = []"
proof -
  assume a: "\<forall>c\<in>set text. is_space c"
  have q: "(63::nat) \<notin> set text" "(33::nat) \<notin> set text"
    using a by (auto simp: is_space_def)
  have r: "py_replace (str ''!'') (str ''.'') (py_replace (str ''?'') (str ''.'') text) = text"
    using q by (simp add: str_def py_replace_absent)
  have "py_strip p = []" if "p \<in> set (py_split (str ''.'') text)" for p
    using set_py_split [OF that] a py_strip_nonempty_iff [of p] by blast
  then have "sentence_loop [] [] (py_split (str ''.'') text) = ([], [])"
    by (simp add: sentence_loop_skip)
  with r show ?thesis by (simp add: sentence_blocks_def)
qed

text \<open>
  C9. Every block \<open>split_script\<close> returns is non-empty after stripping whitespace, for
  every input text; and for a text of whitespace only it returns the empty list.
\<close>

theorem split_script_no_empty_block:
  "(\<forall>b\<in>set (split_script text). py_strip b \<noteq> []) \<and>
   ((\<forall>c\<in>set text. is_space c) \<longrightarrow> split_script text = [])"
  using paragraph_blocks_nonempty sentence_blocks_nonempty space_only_paragraphs space_only_sentences
  by (auto simp: split_script_def Let_def)

lemma split_script_single_paragraph:
  "\<forall>i. \<not> prefix (str ''\<newline>\<newline>'') (drop i text) \<Longrightarrow> py_strip text \<noteq> []
   \<Longrightarrow> split_script text = [py_strip text]"
  by (simp add: split_script_def paragraph_blocks_def py_split_def py_split_from_no_sep)

text \<open>
  C1. For \<open>demo_script\<close>, a text of five sentences and 22 words without a blank line,
  \<open>split_script\<close> returns the whole text as one block. The sentence grouping of its fallback,
  \<open>sentence_blocks\<close>, would give two blocks, the first closed at 20 words; but the
  paragraph list of a text that is not blank is never empty, so the fallback is not
  reached (\<open>split_script_single_paragraph\<close> above, for every such text).
\<close>

theorem split_script_single_block_example:
  "split_script demo_script = [demo_script] \<and>
   sentence_blocks demo_script =
     [str (''One two three four five. Six seven eight nine ten. '' @
           ''Eleven twelve thirteen fourteen fifteen. Sixteen seventeen eighteen nineteen twenty.''),
      str ''Last one.'']"
  by (simp add: demo_script_def split_script_def paragraph_blocks_def sentence_blocks_def
      py_split_def str_def py_strip_def is_space_def py_words.simps)

theorem split_script_no_empty_block_witness:
  "split_script (str '' a \<newline>\<newline>  \<newline>\<newline>b.'') = [str ''a'', str ''b.''] \<and>
   list_all (\<lambda>b. py_strip b \<noteq> []) (split_script (str '' a \<newline>\<newline>  \<newline>\<newline>b.'')) \<and>
   list_all is_space (str '' \<newline>\<newline>  '') \<and> split_script (str '' \<newline>\<newline>  '') = []"
  using split_script_no_empty_block [of "str '' a \<newline>\<newline>  \<newline>\<newline>b.''"]
    split_script_no_empty_block [of "str '' \<newline>\<newline>  ''"]
  by (simp add: split_script_def paragraph_blocks_def py_split_def str_def py_strip_def
      is_space_def)

section \<open>Properties of rounding\<close>

lemma rounding_nonneg: "rounding rnd \<Longrightarrow> 0 \<le> x \<Longrightarrow> 0 \<le> rnd x"
proof -
  assume r: "rounding rnd" and x: "0 \<le> x"
  from r have "rnd (of_int 0) = of_int 0" unfolding rounding_def by (metis abs_zero zero_le_numeral zero_le_power)
  moreover from r x have "rnd 0 \<le> rnd x" unfolding rounding_def by blast
  ultimately show ?thesis by simp
qed

lemma rounding_int: "rounding rnd \<Longrightarrow> \<bar>n\<bar> \<le> 2 ^ 53 \<Longrightarrow> rnd (of_int n) = of_int n"
  unfolding rounding_def by blast

lemma rounding_0: "rounding rnd \<Longrightarrow> rnd 0 = 0"
  using rounding_int [of rnd 0] by simp

lemma rounding_1: "rounding rnd \<Longrightarrow> rnd 1 = 1"
  using rounding_int [of rnd 1] by simp

lemma rounding_le_1: "rounding rnd \<Longrightarrow> x \<le> 1 \<Longrightarrow> rnd x \<le> 1"
proof -
  assume r: "rounding rnd" and x: "x \<le> 1"
  then have "rnd x \<le> rnd 1" unfolding rounding_def by blast
  with r show ?thesis by (simp add: rounding_1)
qed

section \<open>Properties of the subtitles\<close>

lemma py_round_nearest: "\<bar>of_int (py_round x) - x\<bar> \<le> 1 / 2"
  unfolding py_round_def Let_def by (auto; linarith)

lemma py_round_nonneg: "0 \<le> x \<Longrightarrow> 0 \<le> py_round x"
  unfolding py_round_def Let_def by auto

lemma srt_split:
  fixes n :: int
  assumes "0 \<le> n"
  defines "h \<equiv> n div 3600000"
  defines "r1 \<equiv> n - h * 3600000"
  defines "m \<equiv> r1 div 60000"
  defines "r2 \<equiv> r1 - m * 60000"
  defines "s \<equiv> r2 div 1000"
  defines "ms \<equiv> r2 - s * 1000"
  shows "0 \<le> h \<and> 0 \<le> m \<and> m < 60 \<and> 0 \<le> s \<and> s < 60 \<and> 0 \<le> ms \<and> ms < 1000 \<and>
         3600000 * h + 60000 * m + 1000 * s + ms = n"
proof -
  have r1: "r1 = n mod 3600000" unfolding r1_def h_def by (simp add: minus_div_mult_eq_mod)
  have r2: "r2 = r1 mod 60000" unfolding r2_def m_def by (simp add: minus_div_mult_eq_mod)
  have ms: "ms = r2 mod 1000" unfolding ms_def s_def by (simp add: minus_div_mult_eq_mod)
  have "0 \<le> h" using assms(1) unfolding h_def by simp
  moreover have b1: "0 \<le> r1" "r1 < 3600000" unfolding r1 by simp_all
  moreover have "0 \<le> m" "m < 60" using b1 unfolding m_def by (simp, simp add: div_less_iff_less_mult)
  moreover have b2: "0 \<le> r2" "r2 < 60000" unfolding r2 by simp_all
  moreover have "0 \<le> s" "s < 60" using b2 unfolding s_def by (simp, simp add: div_less_iff_less_mult)
  moreover have "0 \<le> ms" "ms < 1000" unfolding ms by simp_all
  moreover have "3600000 * h + 60000 * m + 1000 * s + ms = n"
    unfolding ms_def r2_def r1_def by simp
  ultimately show ?thesis by blast
qed

lemma digits_all_digit: "list_all is_digit (digits n)"
proof (induction n rule: digits.induct)
  case (1 n)
  show ?case
  proof (cases "n < 10")
    case True
    then show ?thesis by (subst digits.simps) (simp add: is_digit_def)
  next
    case False
    have "n mod 10 < 10" by simp
    then have "is_digit (48 + n mod 10)" unfolding is_digit_def by linarith
    with False 1 show ?thesis by (subst digits.simps) simp
  qed
qed

lemma decimal_value_snoc: "decimal_value (s @ [c]) = 10 * decimal_value s + (c - 48)"
  by (simp add: decimal_value_def)

lemma decimal_value_digits: "decimal_value (digits n) = n"
proof (induction n rule: digits.induct)
  case (1 n)
  show ?case
  proof (cases "n < 10")
    case True
    then show ?thesis by (subst digits.simps) (simp add: decimal_value_def)
  next
    case False
    with 1 have "decimal_value (digits (n div 10)) = n div 10" by simp
    with False show ?thesis by (subst digits.simps) (simp add: decimal_value_snoc)
  qed
qed

lemma length_digits_1: "n < 10 \<Longrightarrow> length (digits n) = 1"
  by (subst digits.simps) simp

lemma length_digits_2: "n < 100 \<Longrightarrow> length (digits n) \<le> 2"
  by (subst digits.simps) (simp add: length_digits_1)

lemma length_digits_3: "n < 1000 \<Longrightarrow> length (digits n) \<le> 3"
proof (cases "n < 10")
  case True
  then show ?thesis by (simp add: length_digits_1)
next
  case False
  assume "n < 1000"
  then have "n div 10 < 100" by simp
  then have "length (digits (n div 10)) \<le> 2" by (rule length_digits_2)
  with False show ?thesis by (subst digits.simps) simp
qed

lemma decimal_value_zeros: "foldl (\<lambda>a c. 10 * a + (c - 48)) 0 (replicate k (48::nat)) = (0::nat)"
  by (induction k) simp_all

lemma decimal_value_zero_pad: "decimal_value (zero_pad w s) = decimal_value s"
  by (simp add: decimal_value_def zero_pad_def decimal_value_zeros)

lemma all_digit_zero_pad: "list_all is_digit s \<Longrightarrow> list_all is_digit (zero_pad w s)"
  by (auto simp: zero_pad_def list_all_iff is_digit_def)

lemma length_zero_pad: "length (zero_pad w s) = max w (length s)"
  by (simp add: zero_pad_def)

lemma format_d_field:
  assumes "0 \<le> n"
  shows "list_all is_digit (format_d w n)" and "int (decimal_value (format_d w n)) = n"
    and "w \<le> length (format_d w n)"
  using assms
  by (simp_all add: format_d_def all_digit_zero_pad digits_all_digit decimal_value_zero_pad
      decimal_value_digits length_zero_pad)

lemma format_d_length:
  assumes "0 \<le> n" and "length (digits (nat n)) \<le> w"
  shows "length (format_d w n) = w"
  using assms by (simp add: format_d_def length_zero_pad)

lemma length_digits_pos: "1 \<le> length (digits n)"
  by (subst digits.simps) simp

lemma length_digits_ge_3: "100 \<le> n \<Longrightarrow> 3 \<le> length (digits n)"
proof -
  assume n: "100 \<le> n"
  then have "10 \<le> n div 10" by simp
  then have "length (digits (n div 10)) = length (digits (n div 10 div 10)) + 1"
    by (subst digits.simps) simp
  with length_digits_pos [of "n div 10 div 10"] have "2 \<le> length (digits (n div 10))" by simp
  with n show ?thesis by (subst digits.simps) simp
qed

lemma set_digits: "c \<in> set (digits n) \<Longrightarrow> 48 \<le> c \<and> c \<le> 57"
  using digits_all_digit [of n] by (auto simp: list_all_iff is_digit_def)

lemma digits_no_newline: "10 \<notin> set (digits n)"
  using set_digits [of 10 n] by auto

lemma format_d_no_newline: "10 \<notin> set (format_d w n)"
  by (auto simp: format_d_def zero_pad_def str_def digits_no_newline)

lemma py_str_int_no_newline: "10 \<notin> set (py_str_int n)"
  by (auto simp: py_str_int_def str_def digits_no_newline)

lemma srt_fields_split:
  assumes "0 \<le> n" and "srt_fields n = (h, m, s, ms)"
  shows "0 \<le> h \<and> 0 \<le> m \<and> m < 60 \<and> 0 \<le> s \<and> s < 60 \<and> 0 \<le> ms \<and> ms < 1000 \<and>
         3600000 * h + 60000 * m + 1000 * s + ms = n"
proof -
  from assms(2) have "h = n div 3600000 \<and> m = (n - h * 3600000) div 60000 \<and>
      s = (n - h * 3600000 - m * 60000) div 1000 \<and> ms = n - h * 3600000 - m * 60000 - s * 1000"
    unfolding srt_fields_def Let_def by auto
  then show ?thesis using srt_split [OF assms(1)] by simp
qed

lemma srt_timestamp_no_newline: "srt_timestamp rnd x = Inr s \<Longrightarrow> 10 \<notin> set s"
  using format_d_no_newline
  by (auto simp: srt_timestamp_def Let_def str_def split: if_splits prod.splits)



text \<open>
  C4, amended. For a non-negative number of seconds whose product with 1000 is a
  double, \<open>srt_timestamp\<close> returns the four fields \<open>HH:MM:SS,mmm\<close>, each a run of
  decimal digits padded with zeros that reads as its number: exactly two digits for the
  minutes and the seconds, three for the milliseconds, and two for the hours below 100
  hours, more from 100 hours on. Minutes and seconds are below 60, milliseconds below
  1000, and \<open>3600000 * HH + 60000 * MM + 1000 * SS + mmm\<close> is the integer nearest to the
  product \<open>seconds * 1000\<close>. When the product overflows, \<open>srt_timestamp\<close> raises
  \<open>OverflowError\<close>.
\<close>

theorem srt_timestamp_fields:
  assumes "rounding rnd" and "0 \<le> seconds"
    and "srt_fields (py_round (rnd (seconds * 1000))) = (h, m, s, ms)"
  shows "(\<bar>rnd (seconds * 1000)\<bar> \<le> float_max \<longrightarrow>
            srt_timestamp rnd seconds =
              Inr (format_d 2 h @ str '':'' @ format_d 2 m @ str '':'' @ format_d 2 s @ str '','' @
                   format_d 3 ms)) \<and>
         (float_max < \<bar>rnd (seconds * 1000)\<bar> \<longrightarrow> srt_timestamp rnd seconds = Inl OverflowError) \<and>
         0 \<le> h \<and> 0 \<le> m \<and> m < 60 \<and> 0 \<le> s \<and> s < 60 \<and> 0 \<le> ms \<and> ms < 1000 \<and>
         3600000 * h + 60000 * m + 1000 * s + ms = py_round (rnd (seconds * 1000)) \<and>
         \<bar>of_int (py_round (rnd (seconds * 1000))) - rnd (seconds * 1000)\<bar> \<le> 1 / 2 \<and>
         list_all is_digit (format_d 2 h) \<and> int (decimal_value (format_d 2 h)) = h \<and>
         (h < 100 \<longrightarrow> length (format_d 2 h) = 2) \<and>
         (100 \<le> h \<longrightarrow> 3 \<le> length (format_d 2 h)) \<and>
         list_all is_digit (format_d 2 m) \<and> length (format_d 2 m) = 2 \<and>
         int (decimal_value (format_d 2 m)) = m \<and>
         list_all is_digit (format_d 2 s) \<and> length (format_d 2 s) = 2 \<and>
         int (decimal_value (format_d 2 s)) = s \<and>
         list_all is_digit (format_d 3 ms) \<and> length (format_d 3 ms) = 3 \<and>
         int (decimal_value (format_d 3 ms)) = ms"
proof -
  define n where "n = py_round (rnd (seconds * 1000))"
  have "0 \<le> rnd (seconds * 1000)"
    using assms(1,2) by (simp add: rounding_nonneg)
  then have n0: "0 \<le> n" unfolding n_def by (rule py_round_nonneg)
  have f: "0 \<le> h \<and> 0 \<le> m \<and> m < 60 \<and> 0 \<le> s \<and> s < 60 \<and> 0 \<le> ms \<and> ms < 1000 \<and>
         3600000 * h + 60000 * m + 1000 * s + ms = n"
    using srt_fields_split [OF n0] assms(3) unfolding n_def by simp
  have ts: "srt_timestamp rnd seconds =
              Inr (format_d 2 h @ str '':'' @ format_d 2 m @ str '':'' @ format_d 2 s @ str '','' @
                   format_d 3 ms)" if "\<bar>rnd (seconds * 1000)\<bar> \<le> float_max"
    using that assms(3) by (simp add: srt_timestamp_def Let_def)
  have ov: "srt_timestamp rnd seconds = Inl OverflowError" if "float_max < \<bar>rnd (seconds * 1000)\<bar>"
    using that by (simp add: srt_timestamp_def Let_def)
  have lm: "length (digits (nat m)) \<le> 2" using f by (intro length_digits_2) linarith
  have ls: "length (digits (nat s)) \<le> 2" using f by (intro length_digits_2) linarith
  have lms: "length (digits (nat ms)) \<le> 3" using f by (intro length_digits_3) linarith
  have lh2: "length (format_d 2 h) = 2" if "h < 100"
  proof -
    have "length (digits (nat h)) \<le> 2" using f that by (intro length_digits_2) linarith
    with f show ?thesis by (simp add: format_d_length)
  qed
  have lh3: "3 \<le> length (format_d 2 h)" if "100 \<le> h"
  proof -
    have "3 \<le> length (digits (nat h))" using that by (intro length_digits_ge_3) linarith
    with that show ?thesis by (simp add: format_d_def length_zero_pad)
  qed
  show ?thesis
    using ts ov f py_round_nearest [of "rnd (seconds * 1000)"] lh2 lh3
      format_d_field [of h 2] format_d_field [of m 2] format_d_field [of s 2]
      format_d_field [of ms 3] format_d_length [of m 2] format_d_length [of s 2]
      format_d_length [of ms 3] lm ls lms
    unfolding n_def by simp
qed

lemma replicate_small: "replicate 2 x = [x, x]" "replicate 3 x = [x, x, x]"
  by (simp_all add: numeral_2_eq_2 numeral_3_eq_3)

lemma float_max_ge: "3600000000 \<le> float_max"
  by (simp add: float_max_def)

lemma demo_timestamps:
  "srt_timestamp (\<lambda>x. x) 0 = Inr (str ''00:00:00,000'')"
  "srt_timestamp (\<lambda>x. x) (3 / 2) = Inr (str ''00:00:01,500'')"
  "srt_timestamp (\<lambda>x. x) (7 / 2) = Inr (str ''00:00:03,500'')"
  "srt_timestamp (\<lambda>x. x) (7323 / 2) = Inr (str ''01:01:01,500'')"
  "srt_timestamp (\<lambda>x. x) 360000 = Inr (str ''100:00:00,000'')"
  using float_max_ge
  by (simp_all add: srt_timestamp_def srt_fields_def py_round_def format_d_def zero_pad_def
      digits.simps str_def replicate_small)

theorem srt_timestamp_fields_witness:
  "rounding (\<lambda>x. x) \<and> (0::real) \<le> 7323 / 2 \<and> \<bar>7323 / 2 * 1000 :: real\<bar> \<le> float_max \<and>
   srt_fields (py_round (7323 / 2 * 1000)) = (1, 1, 1, 500) \<and>
   srt_timestamp (\<lambda>x. x) (7323 / 2) = Inr (str ''01:01:01,500'')"
proof -
  have r: "rounding (\<lambda>x. x)" by (simp add: rounding_def)
  have f: "srt_fields (py_round (7323 / 2 * 1000)) = (1, 1, 1, 500)"
    by (simp add: srt_fields_def py_round_def)
  have b: "\<bar>7323 / 2 * 1000 :: real\<bar> \<le> float_max" using float_max_ge by simp
  from srt_timestamp_fields [of "\<lambda>x. x" "7323 / 2" 1 1 1 500] r f b
  have "srt_timestamp (\<lambda>x. x) (7323 / 2) =
      Inr (format_d 2 1 @ str '':'' @ format_d 2 1 @ str '':'' @ format_d 2 1 @ str '','' @
           format_d 3 500)" by simp
  then have "srt_timestamp (\<lambda>x. x) (7323 / 2) = Inr (str ''01:01:01,500'')"
    by (simp add: format_d_def zero_pad_def digits.simps str_def replicate_small)
  with r f b show ?thesis by simp
qed

text \<open>
  C4 as stated fails twice. At 360000 seconds the hours are 100, three digits, and the
  result is not of the form \<open>HH:MM:SS,mmm\<close>. At \<open>2 ^ 1020\<close> seconds (about \<open>1.1e307\<close>) the
  product with 1000 is beyond the largest double, and no string is returned.
\<close>

theorem srt_timestamp_counterexample:
  "srt_timestamp (\<lambda>x. x) 360000 = Inr (str ''100:00:00,000'') \<and>
   length (str ''100:00:00,000'') = 13 \<and> length (str ''HH:MM:SS,mmm'') = 12 \<and>
   (0::real) \<le> 2 ^ 1020 \<and> srt_timestamp (\<lambda>x. x) (2 ^ 1020) = Inl OverflowError"
  by (simp add: demo_timestamps str_def) (simp add: srt_timestamp_def float_max_def)




lemma srt_loop_step:
  assumes "srt_loop rnd idx t lines (sc # scs) = Inr out"
  shows "\<exists>start stop.
           srt_timestamp rnd t = Inr start \<and> srt_timestamp rnd (rnd (t + duration sc)) = Inr stop \<and>
           srt_loop rnd (idx + 1) (rnd (t + duration sc))
             (lines @
                [py_str_int idx @ str ''\<newline>'' @ start @ str '' --> '' @ stop @ str ''\<newline>'' @
                 py_replace (str ''\<newline>'') (str '' '') (py_strip (scene_text sc)) @
                 str ''\<newline>''])
             scs = Inr out"
  using assms by (auto simp: Let_def split: sum.splits if_splits)

lemma srt_loop_lines:
  assumes "srt_loop rnd idx t lines scs = Inr out"
  shows "\<exists>new. out = lines @ new \<and> length new = length scs \<and>
           (\<forall>k<length scs. \<exists>start stop.
              srt_timestamp rnd (foldl (\<lambda>t sc. rnd (t + duration sc)) t (take k scs)) = Inr start \<and>
              srt_timestamp rnd (foldl (\<lambda>t sc. rnd (t + duration sc)) t (take (Suc k) scs)) =
                Inr stop \<and>
              new ! k =
                py_str_int (idx + int k) @ str ''\<newline>'' @ start @ str '' --> '' @ stop @
                str ''\<newline>'' @
                py_replace (str ''\<newline>'') (str '' '') (py_strip (scene_text (scs ! k))) @
                str ''\<newline>'')"
  using assms
proof (induction scs arbitrary: idx t lines)
  case Nil
  then show ?case by simp
next
  case (Cons sc scs)
  let ?f = "\<lambda>t sc. rnd (t + duration sc)"
  let ?cap = "\<lambda>sc. py_replace (str ''\<newline>'') (str '' '') (py_strip (scene_text sc))"
  from srt_loop_step [OF Cons.prems] obtain start stop where
    st: "srt_timestamp rnd t = Inr start" "srt_timestamp rnd (rnd (t + duration sc)) = Inr stop"
    and rest: "srt_loop rnd (idx + 1) (rnd (t + duration sc))
             (lines @
                [py_str_int idx @ str ''\<newline>'' @ start @ str '' --> '' @ stop @ str ''\<newline>'' @
                 ?cap sc @ str ''\<newline>''])
             scs = Inr out"
    by blast
  let ?line = "py_str_int idx @ str ''\<newline>'' @ start @ str '' --> '' @ stop @ str ''\<newline>'' @
                 ?cap sc @ str ''\<newline>''"
  from Cons.IH [OF rest] obtain new' where
    eq: "out = (lines @ [?line]) @ new'" and len: "length new' = length scs"
    and vals: "\<forall>k<length scs. \<exists>start stop.
              srt_timestamp rnd (foldl ?f (rnd (t + duration sc)) (take k scs)) = Inr start \<and>
              srt_timestamp rnd (foldl ?f (rnd (t + duration sc)) (take (Suc k) scs)) = Inr stop \<and>
              new' ! k =
                py_str_int (idx + 1 + int k) @ str ''\<newline>'' @ start @ str '' --> '' @ stop @
                str ''\<newline>'' @ ?cap (scs ! k) @ str ''\<newline>''"
    by blast
  have "\<forall>k<length (sc # scs). \<exists>start stop.
              srt_timestamp rnd (foldl ?f t (take k (sc # scs))) = Inr start \<and>
              srt_timestamp rnd (foldl ?f t (take (Suc k) (sc # scs))) = Inr stop \<and>
              (?line # new') ! k =
                py_str_int (idx + int k) @ str ''\<newline>'' @ start @ str '' --> '' @ stop @
                str ''\<newline>'' @ ?cap ((sc # scs) ! k) @ str ''\<newline>''"
  proof (intro allI impI)
    fix k assume k: "k < length (sc # scs)"
    show "\<exists>start stop.
              srt_timestamp rnd (foldl ?f t (take k (sc # scs))) = Inr start \<and>
              srt_timestamp rnd (foldl ?f t (take (Suc k) (sc # scs))) = Inr stop \<and>
              (?line # new') ! k =
                py_str_int (idx + int k) @ str ''\<newline>'' @ start @ str '' --> '' @ stop @
                str ''\<newline>'' @ ?cap ((sc # scs) ! k) @ str ''\<newline>''"
    proof (cases k)
      case 0
      with st show ?thesis by simp
    next
      case (Suc j)
      with k have j: "j < length scs" by simp
      have "idx + 1 + int j = idx + int (Suc j)" by simp
      with vals j Suc show ?thesis by (simp add: add.commute add.left_commute)
    qed
  qed
  moreover have "out = lines @ (?line # new')" using eq by simp
  moreover have "length (?line # new') = length (sc # scs)" using len by simp
  ultimately show ?case by blast
qed



lemma write_srt_lines:
  assumes "write_srt_for_scenes rnd scenes srt_path w = Inr w'"
  shows "\<exists>lines. files w' srt_path = Some (TextFile (py_join (str ''\<newline>'') lines)) \<and>
           length lines = length scenes \<and>
           (\<forall>k<length scenes. \<exists>start stop.
              srt_timestamp rnd (elapsed rnd (take k scenes)) = Inr start \<and>
              srt_timestamp rnd (elapsed rnd (take (Suc k) scenes)) = Inr stop \<and>
              lines ! k =
                py_str_int (int k + 1) @ str ''\<newline>'' @ start @ str '' --> '' @ stop @
                str ''\<newline>'' @
                py_replace (str ''\<newline>'') (str '' '') (py_strip (scene_text (scenes ! k))) @
                str ''\<newline>'')"
proof -
  from assms obtain lines where l: "srt_loop rnd 1 0 [] scenes = Inr lines"
    and w': "w' = write_file srt_path (TextFile (py_join (str ''\<newline>'') lines)) w"
    by (auto simp: write_srt_for_scenes_def split: sum.splits)
  from srt_loop_lines [OF l] have "length lines = length scenes"
    and "\<forall>k<length scenes. \<exists>start stop.
              srt_timestamp rnd (elapsed rnd (take k scenes)) = Inr start \<and>
              srt_timestamp rnd (elapsed rnd (take (Suc k) scenes)) = Inr stop \<and>
              lines ! k =
                py_str_int (1 + int k) @ str ''\<newline>'' @ start @ str '' --> '' @ stop @
                str ''\<newline>'' @
                py_replace (str ''\<newline>'') (str '' '') (py_strip (scene_text (scenes ! k))) @
                str ''\<newline>''"
    unfolding elapsed_def by auto
  moreover have "files w' srt_path = Some (TextFile (py_join (str ''\<newline>'') lines))"
    using w' by (simp add: write_file_def)
  ultimately show ?thesis by (auto simp: add.commute)
qed




lemma float_max_small:
  "\<not> float_max < 3 / 2" "\<not> float_max < 7 / 2" "\<not> float_max * 2 < 3" "\<not> float_max * 2 < 7"
  using float_max_ge by simp_all

lemma demo_srt:
  "write_srt_for_scenes (\<lambda>x. x) demo_scenes (str ''out.srt'') demo_world =
     Inr (write_file (str ''out.srt'')
            (TextFile
               (str (''1\<newline>00:00:00,000 --> 00:00:01,500\<newline>Een twee\<newline>\<newline>'' @
                     ''2\<newline>00:00:01,500 --> 00:00:03,500\<newline>Drie\<newline>'')))
            demo_world)"
  by (simp add: write_srt_for_scenes_def demo_scenes_def demo_timestamps float_max_small
      Let_def py_str_int_def digits.simps py_strip_def is_space_def str_def)





lemma split_line_from:
  "10 \<notin> set a \<Longrightarrow> py_split_from [10] cur (a @ 10 # rest) = (cur @ a) # py_split_from [10] [] rest"
  by (induction a arbitrary: cur) auto

lemma split_entry:
  assumes "10 \<notin> set a" "10 \<notin> set b" "10 \<notin> set c"
  shows "py_split (str ''\<newline>'') (a @ str ''\<newline>'' @ b @ str ''\<newline>'' @ c @ str ''\<newline>'') =
           [a, b, c, []]"
  using assms split_line_from [of a "[]" "b @ 10 # c @ [10]"]
    split_line_from [of b "[]" "c @ [10]"] split_line_from [of c "[]" "[]"]
  by (simp add: py_split_def str_def)

lemma caption_no_newline:
  "10 \<notin> set (py_replace (str ''\<newline>'') (str '' '') s)"
  by (auto simp: str_def py_replace_char)

text \<open>
  C10. The text \<open>write_srt_for_scenes\<close> writes is its entries joined by newlines, one
  for every scene. Read line by line, entry \<open>k\<close> is its index, its timing, its caption
  and nothing after the last newline: the caption is one line. It is the text of the
  scene, stripped of leading and trailing whitespace, with every newline left in it
  replaced by a space.
\<close>

theorem srt_caption_single_line:
  assumes "write_srt_for_scenes rnd scenes srt_path w = Inr w'" and "k < length scenes"
  shows "\<exists>lines timing.
           files w' srt_path = Some (TextFile (py_join (str ''\<newline>'') lines)) \<and>
           length lines = length scenes \<and>
           py_split (str ''\<newline>'') (lines ! k) =
             [py_str_int (int k + 1), timing,
              py_replace (str ''\<newline>'') (str '' '') (py_strip (scene_text (scenes ! k))), []] \<and>
           py_replace (str ''\<newline>'') (str '' '') (py_strip (scene_text (scenes ! k))) =
             map (\<lambda>c. if c = 10 then 32 else c) (py_strip (scene_text (scenes ! k))) \<and>
           10 \<notin> set (py_replace (str ''\<newline>'') (str '' '') (py_strip (scene_text (scenes ! k))))"
proof -
  let ?cap = "py_replace (str ''\<newline>'') (str '' '') (py_strip (scene_text (scenes ! k)))"
  from write_srt_lines [OF assms(1)] assms(2) obtain lines start stop where
    f: "files w' srt_path = Some (TextFile (py_join (str ''\<newline>'') lines))"
    and len: "length lines = length scenes"
    and a: "srt_timestamp rnd (elapsed rnd (take k scenes)) = Inr start"
    and b: "srt_timestamp rnd (elapsed rnd (take (Suc k) scenes)) = Inr stop"
    and c: "lines ! k =
                py_str_int (int k + 1) @ str ''\<newline>'' @ start @ str '' --> '' @ stop @
                str ''\<newline>'' @ ?cap @ str ''\<newline>''"
    by blast
  have "10 \<notin> set (start @ str '' --> '' @ stop)"
    using srt_timestamp_no_newline [OF a] srt_timestamp_no_newline [OF b] by (simp add: str_def)
  from split_entry [OF py_str_int_no_newline this caption_no_newline]
  have "py_split (str ''\<newline>'') (lines ! k) =
      [py_str_int (int k + 1), start @ str '' --> '' @ stop, ?cap, []]"
    unfolding c by simp
  moreover have "?cap = map (\<lambda>c. if c = 10 then 32 else c) (py_strip (scene_text (scenes ! k)))"
    by (simp add: str_def py_replace_char)
  ultimately show ?thesis using f len caption_no_newline by blast
qed

theorem srt_caption_single_line_witness:
  "map scene_text demo_scenes = [str '' Een\<newline>twee '', str ''Drie''] \<and>
   (\<exists>w' lines timing.
      write_srt_for_scenes (\<lambda>x. x) demo_scenes (str ''out.srt'') demo_world = Inr w' \<and>
      files w' (str ''out.srt'') = Some (TextFile (py_join (str ''\<newline>'') lines)) \<and>
      py_split (str ''\<newline>'') (lines ! 0) = [str ''1'', timing, str ''Een twee'', []])"
proof -
  have k: "0 < length demo_scenes" by (simp add: demo_scenes_def)
  from srt_caption_single_line [OF demo_srt k] obtain lines timing where
    "files (write_file (str ''out.srt'')
            (TextFile
               (str (''1\<newline>00:00:00,000 --> 00:00:01,500\<newline>Een twee\<newline>\<newline>'' @
                     ''2\<newline>00:00:01,500 --> 00:00:03,500\<newline>Drie\<newline>'')))
            demo_world) (str ''out.srt'') = Some (TextFile (py_join (str ''\<newline>'') lines))"
    and "py_split (str ''\<newline>'') (lines ! 0) =
             [py_str_int (int 0 + 1), timing,
              py_replace (str ''\<newline>'') (str '' '') (py_strip (scene_text (demo_scenes ! 0))), []]"
    by blast
  moreover have "py_str_int (int 0 + 1) = str ''1''"
    by (simp add: py_str_int_def digits.simps str_def)
  moreover have "py_replace (str ''\<newline>'') (str '' '') (py_strip (scene_text (demo_scenes ! 0))) =
      str ''Een twee''"
    by (simp add: demo_scenes_def py_strip_def is_space_def str_def)
  ultimately show ?thesis using demo_srt by (auto simp: demo_scenes_def)
qed

section \<open>Properties of the gradient\<close>

lemma small_int: "0 \<le> c \<Longrightarrow> c \<le> 255 \<Longrightarrow> \<bar>c\<bar> \<le> (2::int) ^ 53"
  by simp

lemma channel_top:
  assumes "rounding rnd" "0 \<le> c1" "c1 \<le> 255"
  shows "channel rnd c1 c2 0 = c1"
  using assms by (simp add: channel_def rounding_0 rounding_1 rounding_int py_int_def)

lemma channel_bottom:
  assumes "rounding rnd" "0 \<le> c2" "c2 \<le> 255"
  shows "channel rnd c1 c2 1 = c2"
  using assms by (simp add: channel_def rounding_0 rounding_1 rounding_int py_int_def)

lemma row_t_top: "rounding rnd \<Longrightarrow> row_t rnd h 0 = 0"
  by (simp add: row_t_def rounding_0)

lemma row_t_bottom: "rounding rnd \<Longrightarrow> 2 \<le> h \<Longrightarrow> row_t rnd h (h - 1) = 1"
proof -
  assume r: "rounding rnd" and h: "2 \<le> h"
  then have "max 1 (int h - 1) = int h - 1" by auto
  then have d: "real_of_int (max 1 (int h - 1)) = real h - 1" by simp
  have n: "real (h - 1) = real h - 1" using h by (simp add: of_nat_diff)
  have "real h - 1 \<noteq> 0" using h by simp
  then have "real (h - 1) / real_of_int (max 1 (int h - 1)) = 1" unfolding d n by simp
  then have "row_t rnd h (h - 1) = rnd 1" unfolding row_t_def by (rule arg_cong)
  with r show ?thesis by (simp only: rounding_1)
qed

lemma row_t_range:
  assumes "rounding rnd" "y < h"
  shows "0 \<le> row_t rnd h y \<and> row_t rnd h y \<le> 1"
proof -
  have "int y \<le> max 1 (int h - 1)" using assms(2) by auto
  then have "real y \<le> real_of_int (max 1 (int h - 1))" by linarith
  moreover have "0 < real_of_int (max 1 (int h - 1))" by simp
  ultimately have "real y / real_of_int (max 1 (int h - 1)) \<le> 1" by (simp add: divide_le_eq_1)
  moreover have "0 \<le> real y / real_of_int (max 1 (int h - 1))" by simp
  ultimately show ?thesis
    using assms(1) unfolding row_t_def by (simp add: rounding_nonneg rounding_le_1)
qed

lemma channel_floor:
  assumes "rounding rnd" "0 \<le> c1" "0 \<le> c2" "0 \<le> t" "t \<le> 1"
  shows "channel rnd c1 c2 t = \<lfloor>rnd (rnd (of_int c1 * rnd (1 - t)) + rnd (of_int c2 * t))\<rfloor>"
    and "0 \<le> channel rnd c1 c2 t"
proof -
  have "0 \<le> rnd (1 - t)" using assms by (simp add: rounding_nonneg)
  then have "0 \<le> rnd (of_int c1 * rnd (1 - t))" using assms by (simp add: rounding_nonneg)
  moreover have "0 \<le> rnd (of_int c2 * t)" using assms by (simp add: rounding_nonneg)
  ultimately have "0 \<le> rnd (rnd (of_int c1 * rnd (1 - t)) + rnd (of_int c2 * t))"
    using assms(1) by (simp add: rounding_nonneg)
  then show "channel rnd c1 c2 t = \<lfloor>rnd (rnd (of_int c1 * rnd (1 - t)) + rnd (of_int c2 * t))\<rfloor>"
    and "0 \<le> channel rnd c1 c2 t"
    by (simp_all add: channel_def py_int_def)
qed

lemma theme_colours_range:
  assumes "theme_colours tn = ((r1, g1, b1), (r2, g2, b2))"
  shows "0 \<le> r1 \<and> r1 \<le> 255 \<and> 0 \<le> g1 \<and> g1 \<le> 255 \<and> 0 \<le> b1 \<and> b1 \<le> 255 \<and>
         0 \<le> r2 \<and> r2 \<le> 255 \<and> 0 \<le> g2 \<and> g2 \<le> 255 \<and> 0 \<le> b2 \<and> b2 \<le> 255"
  using assms unfolding theme_colours_def THEMES_def donker_def
  by (auto split: if_splits)

lemma make_gradient_bg_nth:
  assumes "y < h" "x < w" "theme_colours tn = ((r1, g1, b1), (r2, g2, b2))"
  shows "make_gradient_bg rnd (w, h) tn ! y ! x =
    (word_of_int (channel rnd r1 r2 (row_t rnd h y)),
     word_of_int (channel rnd g1 g2 (row_t rnd h y)),
     word_of_int (channel rnd b1 b2 (row_t rnd h y)))"
  using assms by (simp add: make_gradient_bg_def gradient_row_def Let_def)

lemma accurateD: "accurate rnd \<Longrightarrow> 0 \<le> x \<Longrightarrow> x \<le> 512 \<Longrightarrow> \<bar>rnd x - x\<bar> \<le> 1 / 2 ^ 44"
  unfolding accurate_def by blast

lemma channel_error:
  fixes c1 c2 :: real
  assumes r: "rounding rnd" and a: "accurate rnd"
    and c1: "0 \<le> c1" "c1 \<le> 255" and c2: "0 \<le> c2" "c2 \<le> 255"
    and x: "0 \<le> x" "x \<le> 1"
  shows "\<bar>rnd (rnd (c1 * rnd (1 - rnd x)) + rnd (c2 * rnd x)) - (c1 * (1 - x) + c2 * x)\<bar>
           \<le> 768 / 2 ^ 44"
proof -
  define eps :: real where "eps = 1 / 2 ^ 44"
  define t where "t = rnd x"
  define u where "u = rnd (1 - t)"
  define p where "p = rnd (c1 * u)"
  define q where "q = rnd (c2 * t)"
  have eps: "0 < eps" "eps \<le> 1" by (simp_all add: eps_def)
  have t: "0 \<le> t" "t \<le> 1" using r x by (simp_all add: t_def rounding_nonneg rounding_le_1)
  have et: "\<bar>t - x\<bar> \<le> eps" unfolding t_def eps_def using a x by (intro accurateD) auto
  have u: "0 \<le> u" "u \<le> 1" using r t by (simp_all add: u_def rounding_nonneg rounding_le_1)
  have eu: "\<bar>u - (1 - t)\<bar> \<le> eps" unfolding u_def eps_def using a t by (intro accurateD) auto
  have c1u: "0 \<le> c1 * u" "c1 * u \<le> 255"
    using c1 u mult_mono [of c1 255 u 1] by simp_all
  have c2t: "0 \<le> c2 * t" "c2 * t \<le> 255"
    using c2 t mult_mono [of c2 255 t 1] by simp_all
  have ep: "\<bar>p - c1 * u\<bar> \<le> eps" unfolding p_def eps_def using a c1u by (intro accurateD) auto
  have eq: "\<bar>q - c2 * t\<bar> \<le> eps" unfolding q_def eps_def using a c2t by (intro accurateD) auto
  have p: "0 \<le> p" using r c1u by (simp add: p_def rounding_nonneg)
  have q: "0 \<le> q" using r c2t by (simp add: q_def rounding_nonneg)
  have pq: "p + q \<le> 512" using ep eq c1u c2t eps by linarith
  have es: "\<bar>rnd (p + q) - (p + q)\<bar> \<le> eps"
    unfolding eps_def using a p q pq by (intro accurateD) auto
  have "\<bar>c1 * u - c1 * (1 - x)\<bar> = c1 * \<bar>u - (1 - x)\<bar>"
    using c1 by (simp add: abs_mult flip: right_diff_distrib)
  also have "\<dots> \<le> 255 * \<bar>u - (1 - x)\<bar>" using c1 by (intro mult_right_mono) auto
  also have "\<dots> \<le> 255 * (2 * eps)" using eu et by (intro mult_left_mono) auto
  finally have d1: "\<bar>c1 * u - c1 * (1 - x)\<bar> \<le> 510 * eps" by simp
  have "\<bar>c2 * t - c2 * x\<bar> = c2 * \<bar>t - x\<bar>"
    using c2 by (simp add: abs_mult flip: right_diff_distrib)
  also have "\<dots> \<le> 255 * \<bar>t - x\<bar>" using c2 by (intro mult_right_mono) auto
  also have "\<dots> \<le> 255 * eps" using et by (intro mult_left_mono) auto
  finally have d2: "\<bar>c2 * t - c2 * x\<bar> \<le> 255 * eps" .
  have "\<bar>rnd (p + q) - (c1 * (1 - x) + c2 * x)\<bar> \<le> 768 * eps"
    using es ep eq d1 d2 by linarith
  then show ?thesis by (simp add: eps_def p_def q_def u_def t_def)
qed

lemma exact_range:
  fixes c1 c2 :: real
  assumes "0 \<le> c1" "c1 \<le> 255" "0 \<le> c2" "c2 \<le> 255" "0 \<le> x" "x \<le> 1"
  shows "0 \<le> c1 * (1 - x) + c2 * x" "c1 * (1 - x) + c2 * x \<le> 255"
proof -
  show "0 \<le> c1 * (1 - x) + c2 * x" using assms by simp
  have "c1 * (1 - x) \<le> 255 * (1 - x)" using assms by (intro mult_right_mono) auto
  moreover have "c2 * x \<le> 255 * x" using assms by (intro mult_right_mono) auto
  moreover have "255 * (1 - x) + 255 * x = 255" by (simp add: algebra_simps)
  ultimately show "c1 * (1 - x) + c2 * x \<le> 255" by linarith
qed

lemma row_fraction_range:
  assumes "y < h"
  shows "0 \<le> real y / real_of_int (max 1 (int h - 1))"
    and "real y / real_of_int (max 1 (int h - 1)) \<le> 1"
proof -
  have "int y \<le> max 1 (int h - 1)" using assms by auto
  then have "real y \<le> real_of_int (max 1 (int h - 1))" by linarith
  moreover have "0 < real_of_int (max 1 (int h - 1))" by simp
  ultimately show "real y / real_of_int (max 1 (int h - 1)) \<le> 1" by (simp add: divide_le_eq_1)
  show "0 \<le> real y / real_of_int (max 1 (int h - 1))" by simp
qed

lemma channel_byte:
  assumes r: "rounding rnd" and a: "accurate rnd"
    and c: "0 \<le> c1" "c1 \<le> 255" "0 \<le> c2" "c2 \<le> 255" and y: "y < h"
  shows "uint (word_of_int (channel rnd c1 c2 (row_t rnd h y)) :: 8 word) =
           \<lfloor>rnd (rnd (of_int c1 * rnd (1 - row_t rnd h y)) + rnd (of_int c2 * row_t rnd h y))\<rfloor>"
    and "\<bar>\<lfloor>rnd (rnd (of_int c1 * rnd (1 - row_t rnd h y)) + rnd (of_int c2 * row_t rnd h y))\<rfloor> -
          \<lfloor>of_int c1 * (1 - real y / real_of_int (max 1 (int h - 1))) +
           of_int c2 * (real y / real_of_int (max 1 (int h - 1)))\<rfloor>\<bar> \<le> 1"
proof -
  let ?x = "real y / real_of_int (max 1 (int h - 1))"
  let ?s = "rnd (rnd (of_int c1 * rnd (1 - row_t rnd h y)) + rnd (of_int c2 * row_t rnd h y))"
  let ?e = "real_of_int c1 * (1 - ?x) + of_int c2 * ?x"
  note x = row_fraction_range [OF y]
  have c': "0 \<le> real_of_int c1" "real_of_int c1 \<le> 255" "0 \<le> real_of_int c2" "real_of_int c2 \<le> 255"
    using c by simp_all
  have err: "\<bar>?s - ?e\<bar> \<le> 768 / 2 ^ 44"
    unfolding row_t_def by (rule channel_error [OF r a c' x])
  have e: "0 \<le> ?e" "?e \<le> 255" by (rule exact_range [OF c' x])+
  have small: "(768::real) / 2 ^ 44 < 1" by simp
  note t = row_t_range [OF r y]
  have fl: "channel rnd c1 c2 (row_t rnd h y) = \<lfloor>?s\<rfloor>" and nn: "0 \<le> channel rnd c1 c2 (row_t rnd h y)"
    using channel_floor [OF r c(1) c(3), of "row_t rnd h y"] t by simp_all
  have "?s < 256" using err e small by linarith
  then have "\<lfloor>?s\<rfloor> < 256" by (simp add: floor_less_iff)
  with fl nn show "uint (word_of_int (channel rnd c1 c2 (row_t rnd h y)) :: 8 word) = \<lfloor>?s\<rfloor>"
    by (simp add: uint_word_of_int take_bit_eq_mod)
  have "\<bar>?s - ?e\<bar> < 1" using err small by linarith
  then show "\<bar>\<lfloor>?s\<rfloor> - \<lfloor>?e\<rfloor>\<bar> \<le> 1" by linarith
qed

text \<open>Rounding to a double, evaluated: the exponent of a number between two powers of 2.\<close>

lemma binade_from_eq:
  "e0 \<le> e \<Longrightarrow> nat (e - e0) \<le> n \<Longrightarrow> 2 powi e \<le> x \<Longrightarrow> x < 2 powi (e + 1) \<Longrightarrow>
   binade_from n e0 x = e"
proof (induction n arbitrary: e0)
  case 0
  then show ?case by simp
next
  case (Suc n)
  show ?case
  proof (cases "2 powi (e0 + 1) \<le> x")
    case True
    with Suc.prems(4) have "(2::real) powi (e0 + 1) < 2 powi (e + 1)" by simp
    then have "e0 + 1 < e + 1"
      by (metis linorder_not_less one_le_numeral power_int_increasing)
    with Suc.prems have "binade_from n (e0 + 1) x = e" by (intro Suc.IH) auto
    with True show ?thesis by simp
  next
    case False
    with Suc.prems(3) have "(2::real) powi e < 2 powi (e0 + 1)" by simp
    then have "e < e0 + 1"
      by (metis linorder_not_less one_le_numeral power_int_increasing)
    with Suc.prems(1) False show ?thesis by simp
  qed
qed

lemma float64_eval:
  assumes "2 powi e \<le> \<bar>x\<bar>" "\<bar>x\<bar> < 2 powi (e + 1)" "- 1022 \<le> e" "e \<le> 1023"
  shows "float64 x = of_int (py_round (x / 2 powi (e - 52))) * 2 powi (e - 52)"
proof -
  have "binade x = e"
    unfolding binade_def using assms by (intro binade_from_eq) auto
  then show ?thesis by (simp add: float64_def Let_def)
qed

lemma sunset_t: "row_t float64 1080 7 = 7479564904771018 / 2 ^ 60"
proof -
  have "float64 (7 / 1079) = of_int (py_round (7 / 1079 / 2 powi (- 8 - 52))) * 2 powi (- 8 - 52)"
    by (rule float64_eval) simp_all
  also have "py_round (7 / 1079 / 2 powi (- 8 - 52)) = 7479564904771018"
    by (simp add: py_round_def Let_def)
  finally show ?thesis by (simp add: row_t_def)
qed

lemma sunset_u: "float64 (1 - 7479564904771018 / 2 ^ 60) = 8948765153922468 / 2 ^ 53"
proof -
  let ?x = "1 - 7479564904771018 / 2 ^ 60 :: real"
  have "float64 ?x = of_int (py_round (?x / 2 powi (- 1 - 52))) * 2 powi (- 1 - 52)"
    by (rule float64_eval) simp_all
  also have "py_round (?x / 2 powi (- 1 - 52)) = 8948765153922468"
    by (simp add: py_round_def Let_def)
  finally show ?thesis by simp
qed

lemma sunset_a: "float64 (255 * (8948765153922468 / 2 ^ 53)) = 8913809040039958 / 2 ^ 45"
proof -
  let ?x = "255 * (8948765153922468 / 2 ^ 53) :: real"
  have "float64 ?x = of_int (py_round (?x / 2 powi (7 - 52))) * 2 powi (7 - 52)"
    by (rule float64_eval) simp_all
  also have "py_round (?x / 2 powi (7 - 52)) = 8913809040039958"
    by (simp add: py_round_def Let_def)
  finally show ?thesis by simp
qed

lemma sunset_b: "float64 (255 * (7479564904771018 / 2 ^ 60)) = 7450347854361756 / 2 ^ 52"
proof -
  let ?x = "255 * (7479564904771018 / 2 ^ 60) :: real"
  have "float64 ?x = of_int (py_round (?x / 2 powi (0 - 52))) * 2 powi (0 - 52)"
    by (rule float64_eval) simp_all
  also have "py_round (?x / 2 powi (0 - 52)) = 7450347854361756"
    by (simp add: py_round_def Let_def)
  finally show ?thesis by simp
qed

lemma sunset_s:
  "float64 (8913809040039958 / 2 ^ 45 + 7450347854361756 / 2 ^ 52) = 8972014882652159 / 2 ^ 45"
proof -
  let ?x = "8913809040039958 / 2 ^ 45 + 7450347854361756 / 2 ^ 52 :: real"
  have "float64 ?x = of_int (py_round (?x / 2 powi (7 - 52))) * 2 powi (7 - 52)"
    by (rule float64_eval) simp_all
  also have "py_round (?x / 2 powi (7 - 52)) = 8972014882652159"
    by (simp add: py_round_def Let_def)
  finally show ?thesis by simp
qed

lemma sunset_red: "channel float64 255 255 (row_t float64 1080 7) = 254"
  unfolding sunset_t channel_def
  by (simp only: of_int_numeral sunset_u sunset_a sunset_b sunset_s) (simp add: py_int_def)

lemma gradient_row_uniform:
  assumes "y < h"
  shows "length (make_gradient_bg rnd (w, h) tn ! y) = w"
    and "x < w \<Longrightarrow>
         make_gradient_bg rnd (w, h) tn ! y = replicate w (make_gradient_bg rnd (w, h) tn ! y ! x)"
  using assms by (simp_all add: make_gradient_bg_def gradient_row_def Let_def split: prod.splits)

text \<open>
  C6, amended. For a size \<open>(w, h)\<close> and a theme, \<open>make_gradient_bg\<close> returns \<open>h\<close> rows of
  \<open>w\<close> pixels, and every row is uniform. Every pixel of row \<open>y\<close> holds, channel by
  channel, \<open>floor(c1 * (1 - t) + c2 * t)\<close> as the program computes it, every operation
  rounded to a double, with \<open>t = y / (h - 1)\<close> (\<open>y / 1\<close> when \<open>h = 1\<close>) and \<open>c1\<close>, \<open>c2\<close> the
  colours of the theme: a number from 0 to 255 that is the floor of the exact value or
  differs from it by 1. The top row is \<open>c1\<close>. The bottom row is \<open>c2\<close> when \<open>h\<close> is at least
  2; for \<open>h = 1\<close> the only row is the top row, \<open>c1\<close>.
\<close>

theorem make_gradient_bg_rows:
  assumes "rounding rnd" and "accurate rnd"
    and "theme_colours tn = ((r1, g1, b1), (r2, g2, b2))"
    and "y < h" and "x < w"
  shows "length (make_gradient_bg rnd (w, h) tn) = h \<and>
         length (make_gradient_bg rnd (w, h) tn ! y) = w \<and>
         make_gradient_bg rnd (w, h) tn ! y =
           replicate w (make_gradient_bg rnd (w, h) tn ! y ! x) \<and>
         uint (fst (make_gradient_bg rnd (w, h) tn ! y ! x)) =
           \<lfloor>rnd (rnd (of_int r1 * rnd (1 - row_t rnd h y)) + rnd (of_int r2 * row_t rnd h y))\<rfloor> \<and>
         uint (fst (snd (make_gradient_bg rnd (w, h) tn ! y ! x))) =
           \<lfloor>rnd (rnd (of_int g1 * rnd (1 - row_t rnd h y)) + rnd (of_int g2 * row_t rnd h y))\<rfloor> \<and>
         uint (snd (snd (make_gradient_bg rnd (w, h) tn ! y ! x))) =
           \<lfloor>rnd (rnd (of_int b1 * rnd (1 - row_t rnd h y)) + rnd (of_int b2 * row_t rnd h y))\<rfloor> \<and>
         row_t rnd h y = rnd (real y / (if h = 1 then 1 else real h - 1)) \<and>
         \<bar>uint (fst (make_gradient_bg rnd (w, h) tn ! y ! x)) -
          \<lfloor>of_int r1 * (1 - real y / (if h = 1 then 1 else real h - 1)) +
           of_int r2 * (real y / (if h = 1 then 1 else real h - 1))\<rfloor>\<bar> \<le> 1 \<and>
         \<bar>uint (fst (snd (make_gradient_bg rnd (w, h) tn ! y ! x))) -
          \<lfloor>of_int g1 * (1 - real y / (if h = 1 then 1 else real h - 1)) +
           of_int g2 * (real y / (if h = 1 then 1 else real h - 1))\<rfloor>\<bar> \<le> 1 \<and>
         \<bar>uint (snd (snd (make_gradient_bg rnd (w, h) tn ! y ! x))) -
          \<lfloor>of_int b1 * (1 - real y / (if h = 1 then 1 else real h - 1)) +
           of_int b2 * (real y / (if h = 1 then 1 else real h - 1))\<rfloor>\<bar> \<le> 1 \<and>
         make_gradient_bg rnd (w, h) tn ! 0 ! x =
           (word_of_int r1, word_of_int g1, word_of_int b1) \<and>
         (2 \<le> h \<longrightarrow> make_gradient_bg rnd (w, h) tn ! (h - 1) ! x =
           (word_of_int r2, word_of_int g2, word_of_int b2)) \<and>
         uint (word_of_int r1 :: 8 word) = r1 \<and> uint (word_of_int g1 :: 8 word) = g1 \<and>
         uint (word_of_int b1 :: 8 word) = b1 \<and> uint (word_of_int r2 :: 8 word) = r2 \<and>
         uint (word_of_int g2 :: 8 word) = g2 \<and> uint (word_of_int b2 :: 8 word) = b2"
proof -
  note c = theme_colours_range [OF assms(3)]
  have h0: "0 < h" using assms(4) by simp
  have len: "length (make_gradient_bg rnd (w, h) tn) = h"
    by (simp add: make_gradient_bg_def)
  have row1: "length (make_gradient_bg rnd (w, h) tn ! y) = w"
    by (rule gradient_row_uniform(1) [OF assms(4)])
  have row2: "make_gradient_bg rnd (w, h) tn ! y =
           replicate w (make_gradient_bg rnd (w, h) tn ! y ! x)"
    by (rule gradient_row_uniform(2) [OF assms(4,5)])
  note nth = make_gradient_bg_nth [OF assms(4,5,3), of rnd]
  have d: "real_of_int (max 1 (int h - 1)) = (if h = 1 then 1 else real h - 1)"
  proof (cases "h = 1")
    case True
    then show ?thesis by simp
  next
    case False
    with h0 have "max 1 (int h - 1) = int h - 1" by auto
    with False show ?thesis by simp
  qed
  have rt: "row_t rnd h y = rnd (real y / (if h = 1 then 1 else real h - 1))"
    unfolding row_t_def d ..
  have red: "uint (fst (make_gradient_bg rnd (w, h) tn ! y ! x)) =
           \<lfloor>rnd (rnd (of_int r1 * rnd (1 - row_t rnd h y)) + rnd (of_int r2 * row_t rnd h y))\<rfloor>"
    unfolding nth fst_conv using c by (intro channel_byte(1) [OF assms(1,2) _ _ _ _ assms(4)]) auto
  have green: "uint (fst (snd (make_gradient_bg rnd (w, h) tn ! y ! x))) =
           \<lfloor>rnd (rnd (of_int g1 * rnd (1 - row_t rnd h y)) + rnd (of_int g2 * row_t rnd h y))\<rfloor>"
    unfolding nth fst_conv snd_conv
    using c by (intro channel_byte(1) [OF assms(1,2) _ _ _ _ assms(4)]) auto
  have blue: "uint (snd (snd (make_gradient_bg rnd (w, h) tn ! y ! x))) =
           \<lfloor>rnd (rnd (of_int b1 * rnd (1 - row_t rnd h y)) + rnd (of_int b2 * row_t rnd h y))\<rfloor>"
    unfolding nth snd_conv
    using c by (intro channel_byte(1) [OF assms(1,2) _ _ _ _ assms(4)]) auto
  have red': "\<bar>uint (fst (make_gradient_bg rnd (w, h) tn ! y ! x)) -
          \<lfloor>of_int r1 * (1 - real y / (if h = 1 then 1 else real h - 1)) +
           of_int r2 * (real y / (if h = 1 then 1 else real h - 1))\<rfloor>\<bar> \<le> 1"
    unfolding red d [symmetric]
    using c by (intro channel_byte(2) [OF assms(1,2) _ _ _ _ assms(4)]) auto
  have green': "\<bar>uint (fst (snd (make_gradient_bg rnd (w, h) tn ! y ! x))) -
          \<lfloor>of_int g1 * (1 - real y / (if h = 1 then 1 else real h - 1)) +
           of_int g2 * (real y / (if h = 1 then 1 else real h - 1))\<rfloor>\<bar> \<le> 1"
    unfolding green d [symmetric]
    using c by (intro channel_byte(2) [OF assms(1,2) _ _ _ _ assms(4)]) auto
  have blue': "\<bar>uint (snd (snd (make_gradient_bg rnd (w, h) tn ! y ! x))) -
          \<lfloor>of_int b1 * (1 - real y / (if h = 1 then 1 else real h - 1)) +
           of_int b2 * (real y / (if h = 1 then 1 else real h - 1))\<rfloor>\<bar> \<le> 1"
    unfolding blue d [symmetric]
    using c by (intro channel_byte(2) [OF assms(1,2) _ _ _ _ assms(4)]) auto
  have top: "make_gradient_bg rnd (w, h) tn ! 0 ! x =
           (word_of_int r1, word_of_int g1, word_of_int b1)"
    using c assms(1)
    by (simp add: make_gradient_bg_nth [OF h0 assms(5) assms(3)] row_t_top channel_top)
  have bot: "make_gradient_bg rnd (w, h) tn ! (h - 1) ! x =
           (word_of_int r2, word_of_int g2, word_of_int b2)" if "2 \<le> h"
  proof -
    have "h - 1 < h" using that by simp
    note nth' = make_gradient_bg_nth [OF this assms(5) assms(3), of rnd]
    have rt1: "row_t rnd h (h - 1) = 1" using assms(1) that by (rule row_t_bottom)
    have "channel rnd r1 r2 1 = r2" "channel rnd g1 g2 1 = g2" "channel rnd b1 b2 1 = b2"
      using c assms(1) by (simp_all add: channel_bottom)
    with nth' rt1 show ?thesis by (simp only:)
  qed
  have u: "uint (word_of_int k :: 8 word) = k" if "0 \<le> k" "k \<le> 255" for k
    using that by (simp add: uint_word_of_int take_bit_eq_mod)
  have cols: "uint (word_of_int r1 :: 8 word) = r1 \<and> uint (word_of_int g1 :: 8 word) = g1 \<and>
         uint (word_of_int b1 :: 8 word) = b1 \<and> uint (word_of_int r2 :: 8 word) = r2 \<and>
         uint (word_of_int g2 :: 8 word) = g2 \<and> uint (word_of_int b2 :: 8 word) = b2"
    using c u by blast
  from len row1 row2 red green blue rt red' green' blue' top bot cols
  show ?thesis by blast
qed

lemma demo_gradient:
  "make_gradient_bg (\<lambda>x. x) (2, 3) (str ''Sunset'') =
     [[(255, 94, 98), (255, 94, 98)], [(255, 144, 105), (255, 144, 105)],
      [(255, 195, 113), (255, 195, 113)]]"
  by (simp add: make_gradient_bg_def gradient_row_def row_t_def channel_def py_int_def
      theme_colours_def THEMES_def donker_def str_def upt_rec numeral_2_eq_2)

theorem make_gradient_bg_rows_witness:
  "rounding (\<lambda>x. x) \<and> accurate (\<lambda>x. x) \<and>
   theme_colours (str ''Sunset'') = ((255, 94, 98), (255, 195, 113)) \<and>
   make_gradient_bg (\<lambda>x. x) (2, 3) (str ''Sunset'') =
     [[(255, 94, 98), (255, 94, 98)], [(255, 144, 105), (255, 144, 105)],
      [(255, 195, 113), (255, 195, 113)]] \<and>
   uint (fst (snd (make_gradient_bg (\<lambda>x. x) (2, 3) (str ''Sunset'') ! 1 ! 0))) =
     \<lfloor>94 * (1 - 1 / 2) + 195 * (1 / 2) :: real\<rfloor>"
proof -
  have r: "rounding (\<lambda>x. x)" by (simp add: rounding_def)
  have a: "accurate (\<lambda>x. x)" by (simp add: accurate_def)
  have t: "theme_colours (str ''Sunset'') = ((255, 94, 98), (255, 195, 113))"
    by (simp add: theme_colours_def THEMES_def str_def)
  have "row_t (\<lambda>x. x) 3 (Suc 0) = 1 / 2" by (simp add: row_t_def)
  with make_gradient_bg_rows [OF r a t, of 1 3 0 2]
  have "uint (fst (snd (make_gradient_bg (\<lambda>x. x) (2, 3) (str ''Sunset'') ! 1 ! 0))) =
     \<lfloor>94 * (1 - 1 / 2) + 195 * (1 / 2) :: real\<rfloor>"
    by simp
  with r a t demo_gradient show ?thesis by blast
qed

text \<open>
  C6 as stated fails twice. For \<open>h = 1\<close> the bottom row is the first colour of the theme,
  not the second. And the pixel is not the floor of the exact value: in row 7 of the
  theme \<open>Sunset\<close> at 1920 by 1080, both colours have red 255 and the exact value is 255,
  but the doubles give \<open>254.99999999999997\<close> and the pixel has red 254.
\<close>

theorem make_gradient_bg_counterexample:
  "make_gradient_bg (\<lambda>x. x) (1, 1) (str ''Donker'') = [[(15, 23, 42)]] \<and>
   theme_colours (str ''Donker'') = ((15, 23, 42), (30, 41, 59)) \<and>
   last (make_gradient_bg (\<lambda>x. x) (1, 1) (str ''Donker'')) \<noteq> [(30, 41, 59)] \<and>
   theme_colours (str ''Sunset'') = ((255, 94, 98), (255, 195, 113)) \<and>
   fst (make_gradient_bg float64 (1920, 1080) (str ''Sunset'') ! 7 ! 0) = 254 \<and>
   \<lfloor>255 * (1 - 7 / 1079) + 255 * (7 / 1079) :: real\<rfloor> = 255"
proof -
  have "make_gradient_bg (\<lambda>x. x) (1, 1) (str ''Donker'') = [[(15, 23, 42)]]"
    by (simp add: make_gradient_bg_def gradient_row_def row_t_def channel_def py_int_def
        theme_colours_def THEMES_def donker_def str_def)
  moreover have "theme_colours (str ''Donker'') = ((15, 23, 42), (30, 41, 59))"
    by (simp add: theme_colours_def THEMES_def donker_def str_def)
  moreover have t: "theme_colours (str ''Sunset'') = ((255, 94, 98), (255, 195, 113))"
    by (simp add: theme_colours_def THEMES_def str_def)
  moreover have "fst (make_gradient_bg float64 (1920, 1080) (str ''Sunset'') ! 7 ! 0) = 254"
    using make_gradient_bg_nth [of 7 1080 0 1920, OF _ _ t, of float64]
    by (simp add: sunset_red)
  moreover have "\<lfloor>255 * (1 - 7 / 1079) + 255 * (7 / 1079) :: real\<rfloor> = 255"
    by simp
  ultimately show ?thesis by simp
qed

section \<open>Evaluating the examples\<close>

lemma demo_lib_sel:
  "uuid4_hex demo_lib k = zero_pad 32 (digits k)"
  "gtts demo_lib txt lang = (if txt = [] then None else Some (real (length txt) / 10))"
  "duration_seconds demo_lib a = a"
  "frame_rate demo_lib a = 24000"
  "spawn_frame_rate demo_lib a r = a * 24000 / real_of_int r"
  "set_frame_rate demo_lib a r = a"
  "mp3_codec demo_lib a = a"
  "resize demo_lib sz img = Some (replicate (snd sz) (replicate (fst sz) (0, 0, 0)))"
  "truetype_loads demo_lib p n = False"
  "getlength demo_lib fnt s = Some (10 * real (length s))"
  "getbbox demo_lib fnt s = Some (0, 0, 10 * int (length s), 10)"
  "textwrap_wrap demo_lib txt n = [txt]"
  "multiline_textbbox demo_lib txt fnt spacing align = Some (0, 0, 10 * int (length txt), 10)"
  "convert_rgba demo_lib = map (map (\<lambda>(r, g, b). (r, g, b, 255)))"
  "convert_rgb demo_lib = map (map (\<lambda>(r, g, b, a). (r, g, b)))"
  "new_rgba demo_lib bsz c = (if fst bsz < 0 \<or> snd bsz < 0 then None else Some [])"
  "alpha_composite demo_lib cv box dest = Some (map (map (\<lambda>(r, g, b, a). (r, g, 7, a))) cv)"
  "multiline_text demo_lib cv pos txt fill fnt align spacing =
     map (map (\<lambda>(r, g, b, a). (r, of_nat (length txt), b, a))) cv"
  by (simp_all add: demo_lib_def)

lemma digits_small:
  "digits 0 = [48]" "digits (Suc 0) = [49]" "digits (Suc (Suc 0)) = [50]"
  "digits (Suc (Suc (Suc 0))) = [51]" "digits (Suc (Suc (Suc (Suc 0)))) = [52]"
  "digits (Suc (Suc (Suc (Suc (Suc 0))))) = [53]"
  by (simp_all add: digits.simps)

section \<open>Properties of the time stretch and of the frames\<close>

text \<open>
  C5. For an audio file that exists and a speed within \<open>1e-3\<close> of 1 (the test of the
  program, \<open>abs(speed - 1.0) < 1e-3\<close>), \<open>change_speed\<close> returns the path it was given and
  the duration of that file, and leaves the file system as it was: no file is written
  and no identifier drawn.
\<close>

theorem change_speed_unit:
  assumes "files w input_path = Some (AudioFile audio)"
    and "\<bar>rnd (spd - 1)\<bar> < rnd (1 / 1000)"
  shows "change_speed lib rnd input_path spd w =
           Inr ((input_path, duration_seconds lib audio), w)"
  using assms by (simp add: change_speed_def audio_from_file_def unit_speed_def)

theorem change_speed_unit_witness:
  "files demo_world (str ''a.mp3'') = Some (AudioFile 2) \<and>
   \<bar>(10005 / 10000 - 1 :: real)\<bar> < 1 / 1000 \<and>
   change_speed demo_lib (\<lambda>x. x) (str ''a.mp3'') (10005 / 10000) demo_world =
     Inr ((str ''a.mp3'', 2), demo_world)"
  using change_speed_unit [of demo_world "str ''a.mp3''" 2 "\<lambda>x. x" "10005 / 10000" demo_lib]
  by (simp add: demo_world_def demo_lib_sel str_def)

lemma block_font_cases:
  "block_font lib path n = DefaultFont \<or>
   (\<exists>q. path = Some q \<and> q \<noteq> [] \<and> truetype_loads lib q n \<and> block_font lib path n = TrueType q n)"
  by (auto simp: block_font_def split: option.splits)

lemma char_width_cases:
  "char_width lib fnt = Some cw \<Longrightarrow>
   getlength lib fnt (str ''M'') = Some cw \<or>
   (\<exists>l t r d. getbbox lib fnt (str ''M'') = Some (l, t, r, d) \<and> cw = of_int r)"
  by (auto simp: char_width_def split: option.splits)

lemma draw_text_block_Inr:
  assumes "draw_text_block lib rnd b txt pad path pct sp opacity = Inr frame"
  shows "\<exists>W H font_size fnt cw width wrapped spacing x0 y0 x1 y1 x y box boxed.
           W = int (image_width b) \<and> H = int (image_height b) \<and>
           font_size = max 18 (py_int (rnd (of_int H * pct))) \<and>
           (fnt = DefaultFont \<or>
            (\<exists>q. path = Some q \<and> q \<noteq> [] \<and> truetype_loads lib q font_size \<and>
               fnt = TrueType q font_size)) \<and>
           (getlength lib fnt (str ''M'') = Some cw \<or>
            (\<exists>l t r d. getbbox lib fnt (str ''M'') = Some (l, t, r, d) \<and> cw = of_int r)) \<and>
           width = max 10 (py_int (rnd (of_int (W - 2 * pad) / max 1 cw))) \<and>
           wrapped = py_join (str ''\<newline>'') (textwrap_wrap lib txt width) \<and>
           spacing = py_int (rnd (of_int font_size * rnd (sp - 1))) \<and>
           multiline_textbbox lib wrapped fnt spacing (str ''center'') = Some (x0, y0, x1, y1) \<and>
           x = (W - (x1 - x0)) div 2 \<and> y = (H - (y1 - y0)) div 2 \<and>
           new_rgba lib (x1 - x0 + 2 * pad, y1 - y0 + 2 * pad) (0, 0, 0, opacity) = Some box \<and>
           alpha_composite lib (convert_rgba lib b) box (x - pad, y - pad) = Some boxed \<and>
           frame =
             convert_rgb lib
               (multiline_text lib boxed (x, y) wrapped (255, 255, 255, 255) fnt (str ''center'')
                  spacing)"
proof -
  define W where "W = int (image_width b)"
  define H where "H = int (image_height b)"
  define font_size where "font_size = max 18 (py_int (rnd (of_int H * pct)))"
  define fnt where "fnt = block_font lib path font_size"
  from assms have r1: "(case char_width lib fnt of
           None \<Rightarrow> Inl CannotDraw
         | Some avg_char_w \<Rightarrow>
             let max_chars = max 10 (py_int (rnd (of_int (W - 2 * pad) / max 1 avg_char_w)));
                 wrapped = py_join (str ''\<newline>'') (textwrap_wrap lib txt max_chars);
                 spacing = py_int (rnd (of_int font_size * rnd (sp - 1)))
             in (case multiline_textbbox lib wrapped fnt spacing (str ''center'') of
                   None \<Rightarrow> Inl CannotDraw
                 | Some (x0, y0, x1, y1) \<Rightarrow>
                     let text_w = x1 - x0;
                         text_h = y1 - y0;
                         x = (W - text_w) div 2;
                         y = (H - text_h) div 2
                     in (case new_rgba lib (text_w + 2 * pad, text_h + 2 * pad) (0, 0, 0, opacity) of
                           None \<Rightarrow> Inl CannotDraw
                         | Some box \<Rightarrow>
                             (case alpha_composite lib (convert_rgba lib b) box (x - pad, y - pad) of
                                None \<Rightarrow> Inl CannotDraw
                              | Some boxed \<Rightarrow>
                                  Inr (convert_rgb lib
                                         (multiline_text lib boxed (x, y) wrapped
                                            (255, 255, 255, 255) fnt (str ''center'') spacing)))))) =
         Inr frame"
    unfolding draw_text_block_def W_def H_def font_size_def fnt_def by (simp only: Let_def)
  then obtain cw where cw: "char_width lib fnt = Some cw"
    by (cases "char_width lib fnt") simp_all
  define width where "width = max 10 (py_int (rnd (of_int (W - 2 * pad) / max 1 cw)))"
  define wrapped where "wrapped = py_join (str ''\<newline>'') (textwrap_wrap lib txt width)"
  define spacing where "spacing = py_int (rnd (of_int font_size * rnd (sp - 1)))"
  from r1 have r2: "(case multiline_textbbox lib wrapped fnt spacing (str ''center'') of
                   None \<Rightarrow> Inl CannotDraw
                 | Some (x0, y0, x1, y1) \<Rightarrow>
                     (case new_rgba lib (x1 - x0 + 2 * pad, y1 - y0 + 2 * pad) (0, 0, 0, opacity) of
                           None \<Rightarrow> Inl CannotDraw
                         | Some box \<Rightarrow>
                             (case alpha_composite lib (convert_rgba lib b) box
                                     ((W - (x1 - x0)) div 2 - pad, (H - (y1 - y0)) div 2 - pad) of
                                None \<Rightarrow> Inl CannotDraw
                              | Some boxed \<Rightarrow>
                                  Inr (convert_rgb lib
                                         (multiline_text lib boxed
                                            ((W - (x1 - x0)) div 2, (H - (y1 - y0)) div 2) wrapped
                                            (255, 255, 255, 255) fnt (str ''center'') spacing))))) =
         Inr frame"
    unfolding cw option.case width_def wrapped_def spacing_def by (simp only: Let_def)
  then obtain x0 y0 x1 y1 where
    bb: "multiline_textbbox lib wrapped fnt spacing (str ''center'') = Some (x0, y0, x1, y1)"
    by (cases "multiline_textbbox lib wrapped fnt spacing (str ''center'')") auto
  define x where "x = (W - (x1 - x0)) div 2"
  define y where "y = (H - (y1 - y0)) div 2"
  from r2 have r3: "(case new_rgba lib (x1 - x0 + 2 * pad, y1 - y0 + 2 * pad) (0, 0, 0, opacity) of
                           None \<Rightarrow> Inl CannotDraw
                         | Some box \<Rightarrow>
                             (case alpha_composite lib (convert_rgba lib b) box (x - pad, y - pad) of
                                None \<Rightarrow> Inl CannotDraw
                              | Some boxed \<Rightarrow>
                                  Inr (convert_rgb lib
                                         (multiline_text lib boxed (x, y) wrapped
                                            (255, 255, 255, 255) fnt (str ''center'') spacing)))) =
         Inr frame"
    unfolding bb x_def y_def by (simp only: option.case prod.case)
  then obtain box where
    nb: "new_rgba lib (x1 - x0 + 2 * pad, y1 - y0 + 2 * pad) (0, 0, 0, opacity) = Some box"
    by (cases "new_rgba lib (x1 - x0 + 2 * pad, y1 - y0 + 2 * pad) (0, 0, 0, opacity)") simp_all
  from r3 have r4: "(case alpha_composite lib (convert_rgba lib b) box (x - pad, y - pad) of
                                None \<Rightarrow> Inl CannotDraw
                              | Some boxed \<Rightarrow>
                                  Inr (convert_rgb lib
                                         (multiline_text lib boxed (x, y) wrapped
                                            (255, 255, 255, 255) fnt (str ''center'') spacing))) =
         Inr frame"
    unfolding nb by (simp only: option.case)
  then obtain boxed where
    ac: "alpha_composite lib (convert_rgba lib b) box (x - pad, y - pad) = Some boxed"
    by (cases "alpha_composite lib (convert_rgba lib b) box (x - pad, y - pad)") simp_all
  from r4 have fr: "frame =
             convert_rgb lib
               (multiline_text lib boxed (x, y) wrapped (255, 255, 255, 255) fnt (str ''center'')
                  spacing)"
    unfolding ac by simp
  have f: "fnt = DefaultFont \<or>
            (\<exists>q. path = Some q \<and> q \<noteq> [] \<and> truetype_loads lib q font_size \<and>
               fnt = TrueType q font_size)"
    unfolding fnt_def by (rule block_font_cases)
  note c = char_width_cases [OF cw]
  show ?thesis
    apply (rule exI [of _ W], rule exI [of _ H], rule exI [of _ font_size], rule exI [of _ fnt])
    apply (rule exI [of _ cw], rule exI [of _ width], rule exI [of _ wrapped])
    apply (rule exI [of _ spacing], rule exI [of _ x0], rule exI [of _ y0], rule exI [of _ x1])
    apply (rule exI [of _ y1], rule exI [of _ x], rule exI [of _ y], rule exI [of _ box])
    apply (rule exI [of _ boxed])
    apply (intro conjI)
    apply (rule W_def H_def font_size_def f c width_def wrapped_def spacing_def bb x_def y_def nb
        ac fr)+
    done
qed

lemma draw_text_block_Inl:
  "draw_text_block lib rnd b txt pad path pct sp opacity = Inl e \<Longrightarrow> e = CannotDraw"
  unfolding draw_text_block_def Let_def
  by (auto split: option.splits prod.splits)

lemma scene_background_cases:
  "scene_background lib rnd sz thm bg w = make_gradient_bg rnd sz thm \<or>
   (\<exists>p img. bg = Some p \<and> p \<noteq> [] \<and> image_open w p = Inr img \<and>
      resize lib sz img = Some (scene_background lib rnd sz thm bg w))"
  by (auto simp: scene_background_def split: option.splits sum.splits)

text \<open>
  C8. When a background path is given, the image opens and is resized, \<open>build_scene_image\<close>
  draws the caption on the resized image. When no path is given (or an empty one), or
  opening, decoding or resizing raises, it draws the caption on the gradient of the
  theme: a bad background file gives what no background file gives, and the only
  exception of \<open>build_scene_image\<close> comes from drawing. The frame it returns is that
  background, converted to RGBA, with a black box of the opacity of the settings
  composed over it, as large as the wrapped caption plus the padding and centred, and
  the wrapped caption drawn in white, centred, over the box, converted back to RGB.
\<close>

theorem build_scene_image_background:
  "(bg = Some p \<and> p \<noteq> [] \<and> image_open w p = Inr img \<and> resize lib sz img = Some base \<longrightarrow>
      build_scene_image lib rnd sz thm txt bg st w =
        draw_text_block lib rnd base txt (padding_px st) (font_path st) (font_size_pct st)
          (line_spacing st) (text_box_opacity st)) \<and>
   (bg = None \<or> bg = Some [] \<or>
    (bg = Some p \<and>
     (image_open w p = Inl e \<or> (image_open w p = Inr img \<and> resize lib sz img = None))) \<longrightarrow>
      build_scene_image lib rnd sz thm txt bg st w =
        draw_text_block lib rnd (make_gradient_bg rnd sz thm) txt (padding_px st) (font_path st)
          (font_size_pct st) (line_spacing st) (text_box_opacity st) \<and>
      build_scene_image lib rnd sz thm txt bg st w =
        build_scene_image lib rnd sz thm txt None st w) \<and>
   (build_scene_image lib rnd sz thm txt bg st w = Inl err \<longrightarrow> err = CannotDraw) \<and>
   (build_scene_image lib rnd sz thm txt bg st w = Inr frame \<longrightarrow>
      (\<exists>b. (b = make_gradient_bg rnd sz thm \<or>
          (\<exists>q im. bg = Some q \<and> q \<noteq> [] \<and> image_open w q = Inr im \<and>
             resize lib sz im = Some b)) \<and>
         (\<exists>W H font_size fnt cw width wrapped spacing x0 y0 x1 y1 x y box boxed.
         W = int (image_width b) \<and> H = int (image_height b) \<and>
         font_size = max 18 (py_int (rnd (of_int H * font_size_pct st))) \<and>
         (fnt = DefaultFont \<or>
          (\<exists>q. font_path st = Some q \<and> q \<noteq> [] \<and> truetype_loads lib q font_size \<and>
             fnt = TrueType q font_size)) \<and>
         (getlength lib fnt (str ''M'') = Some cw \<or>
          (\<exists>l t r d. getbbox lib fnt (str ''M'') = Some (l, t, r, d) \<and> cw = of_int r)) \<and>
         width = max 10 (py_int (rnd (of_int (W - 2 * padding_px st) / max 1 cw))) \<and>
         wrapped = py_join (str ''\<newline>'') (textwrap_wrap lib txt width) \<and>
         spacing = py_int (rnd (of_int font_size * rnd (line_spacing st - 1))) \<and>
         multiline_textbbox lib wrapped fnt spacing (str ''center'') = Some (x0, y0, x1, y1) \<and>
         x = (W - (x1 - x0)) div 2 \<and> y = (H - (y1 - y0)) div 2 \<and>
         new_rgba lib (x1 - x0 + 2 * padding_px st, y1 - y0 + 2 * padding_px st)
           (0, 0, 0, text_box_opacity st) = Some box \<and>
         alpha_composite lib (convert_rgba lib b) box (x - padding_px st, y - padding_px st) =
           Some boxed \<and>
         frame =
           convert_rgb lib
             (multiline_text lib boxed (x, y) wrapped (255, 255, 255, 255) fnt (str ''center'')
                spacing))))"
proof (intro conjI impI)
  assume "bg = Some p \<and> p \<noteq> [] \<and> image_open w p = Inr img \<and> resize lib sz img = Some base"
  then show "build_scene_image lib rnd sz thm txt bg st w =
        draw_text_block lib rnd base txt (padding_px st) (font_path st) (font_size_pct st)
          (line_spacing st) (text_box_opacity st)"
    by (auto simp: build_scene_image_def scene_background_def)
next
  assume bad: "bg = None \<or> bg = Some [] \<or>
    (bg = Some p \<and>
     (image_open w p = Inl e \<or> (image_open w p = Inr img \<and> resize lib sz img = None)))"
  then show "build_scene_image lib rnd sz thm txt bg st w =
        draw_text_block lib rnd (make_gradient_bg rnd sz thm) txt (padding_px st) (font_path st)
          (font_size_pct st) (line_spacing st) (text_box_opacity st)"
    by (auto simp: build_scene_image_def scene_background_def)
  from bad show "build_scene_image lib rnd sz thm txt bg st w =
        build_scene_image lib rnd sz thm txt None st w"
    by (auto simp: build_scene_image_def scene_background_def)
next
  assume "build_scene_image lib rnd sz thm txt bg st w = Inl err"
  then show "err = CannotDraw"
    unfolding build_scene_image_def Let_def by (rule draw_text_block_Inl)
next
  assume "build_scene_image lib rnd sz thm txt bg st w = Inr frame"
  then have run: "draw_text_block lib rnd (scene_background lib rnd sz thm bg w) txt (padding_px st)
      (font_path st) (font_size_pct st) (line_spacing st) (text_box_opacity st) = Inr frame"
    by (simp add: build_scene_image_def)
  show "\<exists>b. (b = make_gradient_bg rnd sz thm \<or>
          (\<exists>q im. bg = Some q \<and> q \<noteq> [] \<and> image_open w q = Inr im \<and>
             resize lib sz im = Some b)) \<and>
         (\<exists>W H font_size fnt cw width wrapped spacing x0 y0 x1 y1 x y box boxed.
         W = int (image_width b) \<and> H = int (image_height b) \<and>
         font_size = max 18 (py_int (rnd (of_int H * font_size_pct st))) \<and>
         (fnt = DefaultFont \<or>
          (\<exists>q. font_path st = Some q \<and> q \<noteq> [] \<and> truetype_loads lib q font_size \<and>
             fnt = TrueType q font_size)) \<and>
         (getlength lib fnt (str ''M'') = Some cw \<or>
          (\<exists>l t r d. getbbox lib fnt (str ''M'') = Some (l, t, r, d) \<and> cw = of_int r)) \<and>
         width = max 10 (py_int (rnd (of_int (W - 2 * padding_px st) / max 1 cw))) \<and>
         wrapped = py_join (str ''\<newline>'') (textwrap_wrap lib txt width) \<and>
         spacing = py_int (rnd (of_int font_size * rnd (line_spacing st - 1))) \<and>
         multiline_textbbox lib wrapped fnt spacing (str ''center'') = Some (x0, y0, x1, y1) \<and>
         x = (W - (x1 - x0)) div 2 \<and> y = (H - (y1 - y0)) div 2 \<and>
         new_rgba lib (x1 - x0 + 2 * padding_px st, y1 - y0 + 2 * padding_px st)
           (0, 0, 0, text_box_opacity st) = Some box \<and>
         alpha_composite lib (convert_rgba lib b) box (x - padding_px st, y - padding_px st) =
           Some boxed \<and>
         frame =
           convert_rgb lib
             (multiline_text lib boxed (x, y) wrapped (255, 255, 255, 255) fnt (str ''center'')
                spacing))"
    by (rule exI [of _ "scene_background lib rnd sz thm bg w"])
      (rule conjI [OF scene_background_cases draw_text_block_Inr [OF run]])
qed

lemma demo_gradient_donker:
  "make_gradient_bg (\<lambda>x. x) (2, 2) (str ''Donker'') =
     [[(15, 23, 42), (15, 23, 42)], [(30, 41, 59), (30, 41, 59)]]"
  by (simp add: make_gradient_bg_def gradient_row_def row_t_def channel_def py_int_def
      theme_colours_def THEMES_def donker_def str_def upt_rec numeral_2_eq_2)

lemma demo_draw:
  "draw_text_block demo_lib (\<lambda>x. x) [[(r1, g1, b1), (r2, g2, b2)], [(r3, g3, b3), (r4, g4, b4)]]
     (str ''Hoi'') 40 None (65 / 1000) (12 / 10) 140 =
   Inr [[(r1, 3, 7), (r2, 3, 7)], [(r3, 3, 7), (r4, 3, 7)]]"
  by (simp add: draw_text_block_def block_font_def char_width_def demo_lib_sel image_width_def
      image_height_def py_int_def Let_def str_def)

lemma demo_draw_text:
  "0 \<le> pad \<Longrightarrow>
   draw_text_block demo_lib rnd base txt pad None pct sp opacity =
     Inr (map (map (\<lambda>(r, g, b). (r, of_nat (length txt), 7))) base)"
  by (simp add: draw_text_block_def block_font_def char_width_def demo_lib_sel Let_def o_def
      case_prod_beta)

lemma demo_frames:
  "build_scene_image demo_lib (\<lambda>x. x) (2, 2) (str ''Donker'') (str ''Hoi'')
     (Some (str ''bg.png'')) demo_settings demo_world =
     Inr [[(0, 3, 7), (0, 3, 7)], [(0, 3, 7), (0, 3, 7)]]"
  "build_scene_image demo_lib (\<lambda>x. x) (2, 2) (str ''Donker'') (str ''Hoi'') None
     demo_settings demo_world = Inr [[(15, 3, 7), (15, 3, 7)], [(30, 3, 7), (30, 3, 7)]]"
proof -
  have bg: "scene_background demo_lib (\<lambda>x. x) (2, 2) (str ''Donker'') (Some (str ''bg.png''))
      demo_world = [[(0, 0, 0), (0, 0, 0)], [(0, 0, 0), (0, 0, 0)]]"
    by (simp add: scene_background_def image_open_def demo_world_def demo_lib_sel str_def
        numeral_2_eq_2)
  have st: "padding_px demo_settings = 40" "font_path demo_settings = None"
    "font_size_pct demo_settings = 65 / 1000" "line_spacing demo_settings = 12 / 10"
    "text_box_opacity demo_settings = 140"
    by (simp_all add: demo_settings_def)
  show "build_scene_image demo_lib (\<lambda>x. x) (2, 2) (str ''Donker'') (str ''Hoi'')
     (Some (str ''bg.png'')) demo_settings demo_world =
     Inr [[(0, 3, 7), (0, 3, 7)], [(0, 3, 7), (0, 3, 7)]]"
    unfolding build_scene_image_def Let_def bg st by (rule demo_draw)
  have "scene_background demo_lib (\<lambda>x. x) (2, 2) (str ''Donker'') None demo_world =
      [[(15, 23, 42), (15, 23, 42)], [(30, 41, 59), (30, 41, 59)]]"
    by (simp add: scene_background_def demo_gradient_donker)
  then show "build_scene_image demo_lib (\<lambda>x. x) (2, 2) (str ''Donker'') (str ''Hoi'') None
     demo_settings demo_world = Inr [[(15, 3, 7), (15, 3, 7)], [(30, 3, 7), (30, 3, 7)]]"
    unfolding build_scene_image_def Let_def st by (simp only: demo_draw)
qed

theorem build_scene_image_background_witness:
  "image_open demo_world (str ''bg.png'') = Inr [[(1, 2, 3)]] \<and>
   resize demo_lib (2, 2) [[(1, 2, 3)]] = Some [[(0, 0, 0), (0, 0, 0)], [(0, 0, 0), (0, 0, 0)]] \<and>
   build_scene_image demo_lib (\<lambda>x. x) (2, 2) (str ''Donker'') (str ''Hoi'') (Some (str ''bg.png''))
     demo_settings demo_world = Inr [[(0, 3, 7), (0, 3, 7)], [(0, 3, 7), (0, 3, 7)]] \<and>
   image_open demo_world (str ''a.mp3'') = Inl (CannotOpen (str ''a.mp3'')) \<and>
   make_gradient_bg (\<lambda>x. x) (2, 2) (str ''Donker'') =
     [[(15, 23, 42), (15, 23, 42)], [(30, 41, 59), (30, 41, 59)]] \<and>
   build_scene_image demo_lib (\<lambda>x. x) (2, 2) (str ''Donker'') (str ''Hoi'') (Some (str ''a.mp3''))
     demo_settings demo_world = Inr [[(15, 3, 7), (15, 3, 7)], [(30, 3, 7), (30, 3, 7)]]"
proof -
  have o1: "image_open demo_world (str ''bg.png'') = Inr [[(1, 2, 3)]]"
    by (simp add: image_open_def demo_world_def str_def)
  have r1: "resize demo_lib (2, 2) [[(1, 2, 3)]] =
      Some [[(0, 0, 0), (0, 0, 0)], [(0, 0, 0), (0, 0, 0)]]"
    by (simp add: demo_lib_sel numeral_2_eq_2)
  have o2: "image_open demo_world (str ''a.mp3'') = Inl (CannotOpen (str ''a.mp3''))"
    by (simp add: image_open_def demo_world_def str_def)
  from build_scene_image_background [of "Some (str ''a.mp3'')" "str ''a.mp3''" demo_world
      "[]" demo_lib "(2, 2)" "[]" "\<lambda>x. x" "str ''Donker''" "str ''Hoi''" demo_settings
      "CannotOpen (str ''a.mp3'')"] o2
  have "build_scene_image demo_lib (\<lambda>x. x) (2, 2) (str ''Donker'') (str ''Hoi'')
      (Some (str ''a.mp3'')) demo_settings demo_world =
    build_scene_image demo_lib (\<lambda>x. x) (2, 2) (str ''Donker'') (str ''Hoi'') None
      demo_settings demo_world"
    by blast
  with o1 r1 o2 demo_frames demo_gradient_donker show ?thesis by simp
qed

section \<open>Properties of the render loop\<close>

lemma tts_to_mp3_result:
  assumes "tts_to_mp3 lib txt lang w = Inr ((p, d), w1)"
  shows "\<exists>a. gtts lib txt lang = Some a \<and> d = duration_seconds lib a \<and>
           p = str ''tmp/tts_'' @ uuid4_hex lib (uuids_drawn w) @ str ''.mp3'' \<and>
           files w1 = (files w)(p \<mapsto> AudioFile a) \<and> uuids_drawn w1 = Suc (uuids_drawn w)"
  using assms
  by (auto simp: tts_to_mp3_def fresh_uuid_def write_file_def audio_from_file_def Let_def
      split: option.splits)

lemma change_speed_result:
  assumes "change_speed lib rnd p spd w1 = Inr ((p', d'), w2)"
  shows "\<exists>a. files w1 p = Some (AudioFile a) \<and>
           d' = duration_seconds lib (scene_audio lib rnd spd a) \<and>
           files w2 p' = Some (AudioFile (scene_audio lib rnd spd a)) \<and>
           (if unit_speed rnd spd then p' = p \<and> w2 = w1
            else p' = str ''tmp/tts_speed_'' @ uuid4_hex lib (uuids_drawn w1) @ str ''.mp3'' \<and>
                 files w2 = (files w1)(p' \<mapsto> AudioFile (scene_audio lib rnd spd a)) \<and>
                 uuids_drawn w2 = Suc (uuids_drawn w1))"
  using assms
  by (auto simp: change_speed_def fresh_uuid_def write_file_def audio_from_file_def Let_def
      scene_audio_def split: option.splits content.splits if_splits)

lemma save_pil_image_result:
  assumes "save_pil_image lib img w = (p, w')"
  shows "p = str ''tmp/frame_'' @ uuid4_hex lib (uuids_drawn w) @ str ''.png'' \<and>
         files w' = (files w)(p \<mapsto> ImageFile img) \<and> uuids_drawn w' = Suc (uuids_drawn w)"
  using assms by (auto simp: save_pil_image_def fresh_uuid_def write_file_def Let_def)

lemma frame_not_audio:
  "str ''tmp/frame_'' @ u @ str ''.png'' \<noteq> str ''tmp/tts_'' @ u' @ str ''.mp3''"
  "str ''tmp/frame_'' @ u @ str ''.png'' \<noteq> str ''tmp/tts_speed_'' @ u' @ str ''.mp3''"
  "str ''tmp/tts_'' @ u' @ str ''.mp3'' \<noteq> str ''tmp/frame_'' @ u @ str ''.png''"
  "str ''tmp/tts_speed_'' @ u' @ str ''.mp3'' \<noteq> str ''tmp/frame_'' @ u @ str ''.png''"
  by (simp_all add: str_def)

lemma tts_not_speed:
  assumes "length u = length u'"
  shows "str ''tmp/tts_'' @ u @ str ''.mp3'' \<noteq> str ''tmp/tts_speed_'' @ u' @ str ''.mp3''"
proof
  assume "str ''tmp/tts_'' @ u @ str ''.mp3'' = str ''tmp/tts_speed_'' @ u' @ str ''.mp3''"
  then have "length (str ''tmp/tts_'' @ u @ str ''.mp3'') =
             length (str ''tmp/tts_speed_'' @ u' @ str ''.mp3'')" by (rule arg_cong)
  with assms show False by (simp add: str_def)
qed

lemma tts_eq: "str ''tmp/tts_'' @ u @ str ''.mp3'' = str ''tmp/tts_'' @ u' @ str ''.mp3'' \<longleftrightarrow> u = u'"
  by (simp add: str_def)

lemma speed_eq:
  "str ''tmp/tts_speed_'' @ u @ str ''.mp3'' = str ''tmp/tts_speed_'' @ u' @ str ''.mp3'' \<longleftrightarrow> u = u'"
  by (simp add: str_def)

lemma names_disjoint:
  assumes f: "fresh_uuids lib N" and "n' \<le> N" and "m \<le> n"
    and p: "p \<in> audio_names lib n n' \<union> frame_names lib n n'"
    and q: "q \<in> audio_names lib 0 m"
  shows "p \<noteq> q"
proof -
  from q obtain j where j: "j < m"
    and qq: "q = str ''tmp/tts_'' @ uuid4_hex lib j @ str ''.mp3'' \<or>
             q = str ''tmp/tts_speed_'' @ uuid4_hex lib j @ str ''.mp3''"
    unfolding audio_names_def by auto
  from p obtain k where k: "n \<le> k" "k < n'"
    and pp: "p = str ''tmp/tts_'' @ uuid4_hex lib k @ str ''.mp3'' \<or>
             p = str ''tmp/tts_speed_'' @ uuid4_hex lib k @ str ''.mp3'' \<or>
             p = str ''tmp/frame_'' @ uuid4_hex lib k @ str ''.png''"
    unfolding audio_names_def frame_names_def by auto
  have jk: "j < N" "k < N" "j \<noteq> k" using j k assms(2,3) by auto
  with f have len: "length (uuid4_hex lib k) = length (uuid4_hex lib j)"
    and ne: "uuid4_hex lib k \<noteq> uuid4_hex lib j"
    unfolding fresh_uuids_def by blast+
  from pp qq show ?thesis
    using frame_not_audio tts_not_speed [OF len] tts_not_speed [OF len [symmetric]] ne
    by (auto simp: tts_eq speed_eq)
qed

lemma audio_names_mono: "n' \<le> m' \<Longrightarrow> audio_names lib n n' \<subseteq> audio_names lib n m'"
  unfolding audio_names_def by auto

lemma audio_names_mono_left: "n \<le> m \<Longrightarrow> audio_names lib m n' \<subseteq> audio_names lib n n'"
  unfolding audio_names_def by auto

lemma render_scene_step:
  assumes "render_scene lib rnd st lang bgs i blk w = Inr (sc, w')"
  shows "uuids_drawn w < uuids_drawn w'"
    and "\<And>p. p \<notin> audio_names lib (uuids_drawn w) (uuids_drawn w') \<union>
               frame_names lib (uuids_drawn w) (uuids_drawn w') \<Longrightarrow> files w' p = files w p"
    and "audio_path sc \<in> audio_names lib (uuids_drawn w) (uuids_drawn w')"
    and "audio_matches lib w' sc"
    and "scene_text sc = blk"
    and "\<exists>a. gtts lib blk lang = Some a \<and>
           duration sc = duration_seconds lib (scene_audio lib rnd (speed st) a) \<and>
           files w' (audio_path sc) = Some (AudioFile (scene_audio lib rnd (speed st) a))"
proof -
  from assms obtain p d w1 where t: "tts_to_mp3 lib blk lang w = Inr ((p, d), w1)"
    by (auto simp: render_scene_def split: sum.splits)
  from assms t obtain p' d' w2 where c: "change_speed lib rnd p (speed st) w1 = Inr ((p', d'), w2)"
    by (auto simp: render_scene_def split: sum.splits)
  from assms t c obtain img fp where
    s: "save_pil_image lib img w2 = (fp, w')"
    and sc: "sc = \<lparr>scene_text = blk, bg_image_path = Some fp, audio_path = p', duration = d'\<rparr>"
    by (auto simp: render_scene_def Let_def split: sum.splits prod.splits)
  from tts_to_mp3_result [OF t] obtain a where a: "gtts lib blk lang = Some a"
    and p: "p = str ''tmp/tts_'' @ uuid4_hex lib (uuids_drawn w) @ str ''.mp3''"
    and f1: "files w1 = (files w)(p \<mapsto> AudioFile a)" and n1: "uuids_drawn w1 = Suc (uuids_drawn w)"
    by blast
  from change_speed_result [OF c] f1 have
    d': "d' = duration_seconds lib (scene_audio lib rnd (speed st) a)"
    and fp': "files w2 p' = Some (AudioFile (scene_audio lib rnd (speed st) a))"
    and u: "if unit_speed rnd (speed st) then p' = p \<and> w2 = w1
            else p' = str ''tmp/tts_speed_'' @ uuid4_hex lib (uuids_drawn w1) @ str ''.mp3'' \<and>
                 files w2 = (files w1)(p' \<mapsto> AudioFile (scene_audio lib rnd (speed st) a)) \<and>
                 uuids_drawn w2 = Suc (uuids_drawn w1)"
    by auto
  from save_pil_image_result [OF s] have
    fpath: "fp = str ''tmp/frame_'' @ uuid4_hex lib (uuids_drawn w2) @ str ''.png''"
    and f3: "files w' = (files w2)(fp \<mapsto> ImageFile img)" and n3: "uuids_drawn w' = Suc (uuids_drawn w2)"
    by auto
  have n12: "uuids_drawn w1 \<le> uuids_drawn w2" using u by (auto split: if_splits)
  show lt: "uuids_drawn w < uuids_drawn w'" using n1 n12 n3 by simp
  have pin: "p \<in> audio_names lib (uuids_drawn w) (uuids_drawn w')"
    unfolding audio_names_def p using lt by auto
  have p'in: "p' \<in> audio_names lib (uuids_drawn w) (uuids_drawn w')"
  proof (cases "unit_speed rnd (speed st)")
    case True
    with u pin show ?thesis by simp
  next
    case False
    with u have "p' = str ''tmp/tts_speed_'' @ uuid4_hex lib (uuids_drawn w1) @ str ''.mp3''"
      and "uuids_drawn w2 = Suc (uuids_drawn w1)" by auto
    then show ?thesis unfolding audio_names_def using n1 n3 by auto
  qed
  have fpin: "fp \<in> frame_names lib (uuids_drawn w) (uuids_drawn w')"
    unfolding frame_names_def fpath using n1 n12 n3 by auto
  show "audio_path sc \<in> audio_names lib (uuids_drawn w) (uuids_drawn w')"
    using p'in sc by simp
  have ne: "fp \<noteq> p'"
    using p'in unfolding fpath audio_names_def using frame_not_audio by auto
  then have keep: "files w' p' = Some (AudioFile (scene_audio lib rnd (speed st) a))"
    using f3 fp' by simp
  then show "audio_matches lib w' sc" using sc d' by (simp add: audio_matches_def)
  show "scene_text sc = blk" using sc by simp
  show "\<exists>a. gtts lib blk lang = Some a \<and>
           duration sc = duration_seconds lib (scene_audio lib rnd (speed st) a) \<and>
           files w' (audio_path sc) = Some (AudioFile (scene_audio lib rnd (speed st) a))"
    using a d' keep sc by simp
  fix q
  assume q: "q \<notin> audio_names lib (uuids_drawn w) (uuids_drawn w') \<union>
               frame_names lib (uuids_drawn w) (uuids_drawn w')"
  with pin p'in fpin have "q \<noteq> p" "q \<noteq> p'" "q \<noteq> fp" by auto
  then show "files w' q = files w q"
    using f1 f3 u by (auto split: if_splits)
qed

lemma render_scenes_uuids:
  "render_scenes lib rnd st lang bgs i blocks scenes w = Inr (scenes', w')
   \<Longrightarrow> uuids_drawn w \<le> uuids_drawn w'"
proof (induction blocks arbitrary: i scenes w)
  case Nil
  then show ?case by simp
next
  case (Cons blk blocks)
  from Cons.prems obtain sc w3 where
    step: "render_scene lib rnd st lang bgs i blk w = Inr (sc, w3)"
    and rest: "render_scenes lib rnd st lang bgs (Suc i) blocks (scenes @ [sc]) w3 = Inr (scenes', w')"
    by (auto split: sum.splits)
  from render_scene_step(1) [OF step] Cons.IH [OF rest] show ?case by simp
qed

lemma render_scenes_loop:
  assumes "render_scenes lib rnd st lang bgs i blocks scenes w = Inr (scenes', w')"
    and "fresh_uuids lib (uuids_drawn w')"
    and "\<forall>sc\<in>set scenes. audio_path sc \<in> audio_names lib 0 (uuids_drawn w)"
  shows "\<exists>new. scenes' = scenes @ new \<and> length new = length blocks \<and>
           (\<forall>sc\<in>set scenes. files w' (audio_path sc) = files w (audio_path sc)) \<and>
           (\<forall>k<length blocks. scene_text (new ! k) = blocks ! k \<and>
              (\<exists>a. gtts lib (blocks ! k) lang = Some a \<and>
                 duration (new ! k) = duration_seconds lib (scene_audio lib rnd (speed st) a) \<and>
                 files w' (audio_path (new ! k)) =
                   Some (AudioFile (scene_audio lib rnd (speed st) a))))"
  using assms
proof (induction blocks arbitrary: i scenes w)
  case Nil
  then show ?case by simp
next
  case (Cons blk blocks)
  from Cons.prems(1) obtain sc w3 where
    step: "render_scene lib rnd st lang bgs i blk w = Inr (sc, w3)"
    and rest: "render_scenes lib rnd st lang bgs (Suc i) blocks (scenes @ [sc]) w3 = Inr (scenes', w')"
    by (auto split: sum.splits)
  note s = render_scene_step [OF step]
  have n3: "uuids_drawn w3 \<le> uuids_drawn w'" using rest by (rule render_scenes_uuids)
  have old: "audio_path x \<in> audio_names lib 0 (uuids_drawn w3)" if "x \<in> set scenes" for x
    using Cons.prems(3) that s(1) audio_names_mono [of "uuids_drawn w" "uuids_drawn w3" lib 0]
    by auto
  have new: "audio_path sc \<in> audio_names lib 0 (uuids_drawn w3)"
    using s(3) audio_names_mono_left [of 0 "uuids_drawn w" lib "uuids_drawn w3"] by auto
  have inv: "\<forall>x\<in>set (scenes @ [sc]). audio_path x \<in> audio_names lib 0 (uuids_drawn w3)"
    using old new by auto
  from Cons.IH [OF rest Cons.prems(2) inv] obtain new' where
    eq: "scenes' = (scenes @ [sc]) @ new'" and len: "length new' = length blocks"
    and keep: "\<forall>x\<in>set (scenes @ [sc]). files w' (audio_path x) = files w3 (audio_path x)"
    and vals: "\<forall>k<length blocks. scene_text (new' ! k) = blocks ! k \<and>
              (\<exists>a. gtts lib (blocks ! k) lang = Some a \<and>
                 duration (new' ! k) = duration_seconds lib (scene_audio lib rnd (speed st) a) \<and>
                 files w' (audio_path (new' ! k)) =
                   Some (AudioFile (scene_audio lib rnd (speed st) a)))"
    by blast
  have kept: "files w' (audio_path x) = files w (audio_path x)" if x: "x \<in> set scenes" for x
  proof -
    have "audio_path x \<notin> audio_names lib (uuids_drawn w) (uuids_drawn w3) \<union>
            frame_names lib (uuids_drawn w) (uuids_drawn w3)"
      using names_disjoint [OF Cons.prems(2) n3 le_refl, of _ "uuids_drawn w" "audio_path x"]
        Cons.prems(3) x by blast
    then have "files w3 (audio_path x) = files w (audio_path x)" by (rule s(2))
    with keep x show ?thesis by simp
  qed
  have first: "files w' (audio_path sc) = files w3 (audio_path sc)" using keep by simp
  have "scenes' = scenes @ (sc # new')" using eq by simp
  moreover have "length (sc # new') = length (blk # blocks)" using len by simp
  moreover have "\<forall>x\<in>set scenes. files w' (audio_path x) = files w (audio_path x)"
    using kept by blast
  moreover have "\<forall>k<length (blk # blocks). scene_text ((sc # new') ! k) = (blk # blocks) ! k \<and>
              (\<exists>a. gtts lib ((blk # blocks) ! k) lang = Some a \<and>
                 duration ((sc # new') ! k) = duration_seconds lib (scene_audio lib rnd (speed st) a) \<and>
                 files w' (audio_path ((sc # new') ! k)) =
                   Some (AudioFile (scene_audio lib rnd (speed st) a)))"
  proof (intro allI impI)
    fix k assume "k < length (blk # blocks)"
    then show "scene_text ((sc # new') ! k) = (blk # blocks) ! k \<and>
              (\<exists>a. gtts lib ((blk # blocks) ! k) lang = Some a \<and>
                 duration ((sc # new') ! k) = duration_seconds lib (scene_audio lib rnd (speed st) a) \<and>
                 files w' (audio_path ((sc # new') ! k)) =
                   Some (AudioFile (scene_audio lib rnd (speed st) a)))"
    proof (cases k)
      case 0
      with s(5) s(6) first show ?thesis by auto
    next
      case (Suc j)
      with \<open>k < length (blk # blocks)\<close> have "j < length blocks" by simp
      with vals Suc show ?thesis by simp
    qed
  qed
  ultimately show ?case by blast
qed

lemma render_scenes_values:
  assumes "render_scenes lib rnd st lang bgs i blocks scenes w = Inr (scenes', w')"
  shows "\<exists>new. scenes' = scenes @ new \<and> length new = length blocks \<and>
           (\<forall>k<length blocks. scene_text (new ! k) = blocks ! k \<and>
              (\<exists>a. gtts lib (blocks ! k) lang = Some a \<and>
                 duration (new ! k) = duration_seconds lib (scene_audio lib rnd (speed st) a)))"
  using assms
proof (induction blocks arbitrary: i scenes w)
  case Nil
  then show ?case by simp
next
  case (Cons blk blocks)
  from Cons.prems obtain sc w3 where
    step: "render_scene lib rnd st lang bgs i blk w = Inr (sc, w3)"
    and rest: "render_scenes lib rnd st lang bgs (Suc i) blocks (scenes @ [sc]) w3 = Inr (scenes', w')"
    by (auto split: sum.splits)
  note s = render_scene_step [OF step]
  from Cons.IH [OF rest] obtain new' where
    eq: "scenes' = (scenes @ [sc]) @ new'" and len: "length new' = length blocks"
    and vals: "\<forall>k<length blocks. scene_text (new' ! k) = blocks ! k \<and>
              (\<exists>a. gtts lib (blocks ! k) lang = Some a \<and>
                 duration (new' ! k) = duration_seconds lib (scene_audio lib rnd (speed st) a))"
    by blast
  have "\<forall>k<length (blk # blocks). scene_text ((sc # new') ! k) = (blk # blocks) ! k \<and>
              (\<exists>a. gtts lib ((blk # blocks) ! k) lang = Some a \<and>
                 duration ((sc # new') ! k) = duration_seconds lib (scene_audio lib rnd (speed st) a))"
  proof (intro allI impI)
    fix k assume k: "k < length (blk # blocks)"
    show "scene_text ((sc # new') ! k) = (blk # blocks) ! k \<and>
              (\<exists>a. gtts lib ((blk # blocks) ! k) lang = Some a \<and>
                 duration ((sc # new') ! k) = duration_seconds lib (scene_audio lib rnd (speed st) a))"
    proof (cases k)
      case 0
      with s(5) s(6) show ?thesis by auto
    next
      case (Suc j)
      with k have "j < length blocks" by simp
      with vals Suc show ?thesis by simp
    qed
  qed
  moreover have "scenes' = scenes @ (sc # new')" using eq by simp
  moreover have "length (sc # new') = length (blk # blocks)" using len by simp
  ultimately show ?case by blast
qed

text \<open>
  C2. When the render loop returns its scenes, scene \<open>k\<close> shows block \<open>k\<close> and its duration
  is the duration measured of its audio: the speech synthesized for the block when the
  speed passes the test of \<open>change_speed\<close>, and the stretched speech, encoded and measured
  again, when it does not. That audio is what the file at the audio path of the scene
  holds when the loop is over, so every scene has the duration of the audio file
  attached to it, provided no two identifiers drawn for the temporary files collide.
\<close>

theorem render_scenes_durations:
  assumes "render_scenes lib rnd st lang bg_paths 0 blocks [] w = Inr (scenes, w')"
  shows "length scenes = length blocks \<and>
         (\<forall>k<length blocks. scene_text (scenes ! k) = blocks ! k \<and>
            (\<exists>a. gtts lib (blocks ! k) lang = Some a \<and>
               duration (scenes ! k) = duration_seconds lib (scene_audio lib rnd (speed st) a) \<and>
               (fresh_uuids lib (uuids_drawn w') \<longrightarrow>
                  files w' (audio_path (scenes ! k)) =
                    Some (AudioFile (scene_audio lib rnd (speed st) a))))) \<and>
         (fresh_uuids lib (uuids_drawn w') \<longrightarrow> (\<forall>sc\<in>set scenes. audio_matches lib w' sc))"
proof (cases "fresh_uuids lib (uuids_drawn w')")
  case True
  from render_scenes_loop [OF assms True] have len: "length scenes = length blocks"
    and vals: "\<forall>k<length blocks. scene_text (scenes ! k) = blocks ! k \<and>
            (\<exists>a. gtts lib (blocks ! k) lang = Some a \<and>
               duration (scenes ! k) = duration_seconds lib (scene_audio lib rnd (speed st) a) \<and>
               files w' (audio_path (scenes ! k)) =
                 Some (AudioFile (scene_audio lib rnd (speed st) a)))"
    by auto
  have "audio_matches lib w' sc" if "sc \<in> set scenes" for sc
  proof -
    from that obtain k where "k < length scenes" "sc = scenes ! k"
      by (auto simp: in_set_conv_nth)
    with len vals show ?thesis by (auto simp: audio_matches_def)
  qed
  with len vals show ?thesis by blast
next
  case False
  from render_scenes_values [OF assms] have "length scenes = length blocks"
    and "\<forall>k<length blocks. scene_text (scenes ! k) = blocks ! k \<and>
            (\<exists>a. gtts lib (blocks ! k) lang = Some a \<and>
               duration (scenes ! k) = duration_seconds lib (scene_audio lib rnd (speed st) a))"
    by auto
  with False show ?thesis by blast
qed

lemma six: "(\<forall>i<6::nat. P i) \<longleftrightarrow> P 0 \<and> P 1 \<and> P 2 \<and> P 3 \<and> P 4 \<and> P 5"
proof -
  have "\<And>i::nat. i < 6 \<longleftrightarrow> i = 0 \<or> i = 1 \<or> i = 2 \<or> i = 3 \<or> i = 4 \<or> i = 5" by arith
  then show ?thesis by auto
qed

lemma demo_fresh: "fresh_uuids demo_lib 6"
  unfolding fresh_uuids_def
  apply (simp only: six demo_lib_sel)
  apply (simp add: zero_pad_def digits.simps)
  done

lemma demo_render:
  "case render_scenes demo_lib (\<lambda>x. x) (demo_settings\<lparr>speed := 2\<rparr>) (str ''nl'') [] 0
           [str ''Hallo'', str ''Dag dag''] [] demo_world of
       Inl e \<Rightarrow> False
     | Inr (scs, w') \<Rightarrow> uuids_drawn w' = 6 \<and> map duration scs = [1 / 4, 7 / 20] \<and>
        map (files w') (map audio_path scs) = [Some (AudioFile (1 / 4)), Some (AudioFile (7 / 20))]"
  by (simp add: render_scene_def tts_to_mp3_def change_speed_def unit_speed_def time_stretch_def
      build_scene_image_def scene_background_def demo_draw_text save_pil_image_def
      fresh_uuid_def write_file_def audio_from_file_def demo_lib_sel demo_settings_def
      demo_world_def py_int_def zero_pad_def digits_small str_def Let_def)

theorem render_scenes_durations_witness:
  "\<exists>scenes w'.
     render_scenes demo_lib (\<lambda>x. x) (demo_settings\<lparr>speed := 2\<rparr>) (str ''nl'') [] 0
       [str ''Hallo'', str ''Dag dag''] [] demo_world = Inr (scenes, w') \<and>
     fresh_uuids demo_lib (uuids_drawn w') \<and>
     map duration scenes = [1 / 4, 7 / 20] \<and>
     map (files w') (map audio_path scenes) = [Some (AudioFile (1 / 4)), Some (AudioFile (7 / 20))] \<and>
     list_all (audio_matches demo_lib w') scenes"
proof -
  let ?r = "render_scenes demo_lib (\<lambda>x. x) (demo_settings\<lparr>speed := 2\<rparr>) (str ''nl'') [] 0
       [str ''Hallo'', str ''Dag dag''] [] demo_world"
  from demo_render obtain scenes w' where run: "?r = Inr (scenes, w')"
    by (cases ?r) auto
  with demo_render have n: "uuids_drawn w' = 6" and d: "map duration scenes = [1 / 4, 7 / 20]"
    and f: "map (files w') (map audio_path scenes) =
              [Some (AudioFile (1 / 4)), Some (AudioFile (7 / 20))]"
    by simp_all
  have fr: "fresh_uuids demo_lib (uuids_drawn w')" using demo_fresh n by simp
  from render_scenes_durations [OF run] fr have "list_all (audio_matches demo_lib w') scenes"
    by (simp add: list_all_iff)
  with run fr d f show ?thesis by (intro exI conjI)
qed

section \<open>Properties of the video\<close>

lemma make_clips_result:
  assumes "make_clips lib rnd st sz logo n i scs clips w = Inr (clips', w')"
  shows "\<exists>new. clips' = clips @ new \<and> length new = length scs \<and>
           (\<forall>k<length scs.
              clip_duration (new ! k) = duration (scs ! k) \<and>
              clip_audio (new ! k) = audio_path (scs ! k) \<and>
              crossfadein (new ! k) = (if 0 < i + k then Some (rnd (4 / 10)) else None) \<and>
              crossfadeout (new ! k) =
                (if int (i + k) < int n - 1 then Some (rnd (4 / 10)) else None) \<and>
              logo_overlay (new ! k) = logo)"
  using assms
proof (induction scs arbitrary: i clips w)
  case Nil
  then show ?case by simp
next
  case (Cons sc scs)
  from Cons.prems obtain base w1 where
    rest: "make_clips lib rnd st sz logo n (Suc i) scs (clips @ [base]) w1 = Inr (clips', w')"
    and base: "clip_duration base = duration sc" "clip_audio base = audio_path sc"
      "crossfadein base = (if 0 < i then Some (rnd (4 / 10)) else None)"
      "crossfadeout base = (if int i < int n - 1 then Some (rnd (4 / 10)) else None)"
      "logo_overlay base = logo"
    by (auto simp: Let_def split: sum.splits option.splits prod.splits if_splits)
  from Cons.IH [OF rest] obtain new' where
    eq: "clips' = (clips @ [base]) @ new'" and len: "length new' = length scs"
    and vals: "\<forall>k<length scs.
              clip_duration (new' ! k) = duration (scs ! k) \<and>
              clip_audio (new' ! k) = audio_path (scs ! k) \<and>
              crossfadein (new' ! k) = (if 0 < Suc i + k then Some (rnd (4 / 10)) else None) \<and>
              crossfadeout (new' ! k) =
                (if int (Suc i + k) < int n - 1 then Some (rnd (4 / 10)) else None) \<and>
              logo_overlay (new' ! k) = logo"
    by blast
  have "\<forall>k<length (sc # scs).
              clip_duration ((base # new') ! k) = duration ((sc # scs) ! k) \<and>
              clip_audio ((base # new') ! k) = audio_path ((sc # scs) ! k) \<and>
              crossfadein ((base # new') ! k) = (if 0 < i + k then Some (rnd (4 / 10)) else None) \<and>
              crossfadeout ((base # new') ! k) =
                (if int (i + k) < int n - 1 then Some (rnd (4 / 10)) else None) \<and>
              logo_overlay ((base # new') ! k) = logo"
  proof (intro allI impI)
    fix k assume k: "k < length (sc # scs)"
    show "clip_duration ((base # new') ! k) = duration ((sc # scs) ! k) \<and>
              clip_audio ((base # new') ! k) = audio_path ((sc # scs) ! k) \<and>
              crossfadein ((base # new') ! k) = (if 0 < i + k then Some (rnd (4 / 10)) else None) \<and>
              crossfadeout ((base # new') ! k) =
                (if int (i + k) < int n - 1 then Some (rnd (4 / 10)) else None) \<and>
              logo_overlay ((base # new') ! k) = logo"
    proof (cases k)
      case 0
      with base show ?thesis by simp
    next
      case (Suc j)
      with k have "j < length scs" by simp
      with vals Suc show ?thesis by simp
    qed
  qed
  moreover have "clips' = clips @ (base # new')" using eq by simp
  moreover have "length (base # new') = length (sc # scs)" using len by simp
  ultimately show ?case by blast
qed

lemma clip_start_Suc:
  "k < length clips \<Longrightarrow>
   clip_start rnd clips (Suc k) = rnd (clip_start rnd clips k + clip_duration (clips ! k))"
  by (simp add: clip_start_def take_Suc_conv_app_nth)

lemma never_both_on_screen: "\<not> (on_screen rnd clips k t \<and> on_screen rnd clips (Suc k) t)"
  by (auto simp: on_screen_def)

text \<open>
  C7, amended. The video \<open>create_video\<close> writes is the concatenation of one clip per
  scene, in the order of the scenes, each with the duration and the audio of its scene;
  every clip but the first is given a fade-in of \<open>0.4\<close> seconds and every clip but the
  last a fade-out of \<open>0.4\<close> seconds. The clips play one after the other: each starts
  when the one before ends, and no two adjacent clips are on screen at the same time.
\<close>

theorem create_video_fades:
  assumes "create_video lib rnd scenes st sz logo_path w = Inr (out_path, w')"
  shows "\<exists>clips. files w' out_path = Some (VideoFile clips) \<and> length clips = length scenes \<and>
           (\<forall>k<length scenes.
              clip_duration (clips ! k) = duration (scenes ! k) \<and>
              clip_audio (clips ! k) = audio_path (scenes ! k) \<and>
              crossfadein (clips ! k) = (if 0 < k then Some (rnd (4 / 10)) else None) \<and>
              crossfadeout (clips ! k) =
                (if Suc k < length scenes then Some (rnd (4 / 10)) else None) \<and>
              clip_start rnd clips (Suc k) = rnd (clip_start rnd clips k + duration (scenes ! k))) \<and>
           (\<forall>k t. \<not> (on_screen rnd clips k t \<and> on_screen rnd clips (Suc k) t))"
proof -
  obtain logo w1 where l: "render_logo lib rnd (fst sz) logo_path w = (logo, w1)"
    by (cases "render_logo lib rnd (fst sz) logo_path w")
  from assms l obtain clips w2 where
    m: "make_clips lib rnd st sz logo (length scenes) 0 scenes [] w1 = Inr (clips, w2)"
    and f: "files w' out_path = Some (VideoFile clips)"
    by (auto simp: create_video_def fresh_uuid_def write_file_def Let_def
        split: sum.splits if_splits prod.splits)
  from make_clips_result [OF m] have len: "length clips = length scenes"
    and vals: "\<forall>k<length scenes.
              clip_duration (clips ! k) = duration (scenes ! k) \<and>
              clip_audio (clips ! k) = audio_path (scenes ! k) \<and>
              crossfadein (clips ! k) = (if 0 < k then Some (rnd (4 / 10)) else None) \<and>
              crossfadeout (clips ! k) =
                (if int k < int (length scenes) - 1 then Some (rnd (4 / 10)) else None)"
    by auto
  have "\<forall>k<length scenes.
              clip_duration (clips ! k) = duration (scenes ! k) \<and>
              clip_audio (clips ! k) = audio_path (scenes ! k) \<and>
              crossfadein (clips ! k) = (if 0 < k then Some (rnd (4 / 10)) else None) \<and>
              crossfadeout (clips ! k) =
                (if Suc k < length scenes then Some (rnd (4 / 10)) else None) \<and>
              clip_start rnd clips (Suc k) = rnd (clip_start rnd clips k + duration (scenes ! k))"
  proof (intro allI impI)
    fix k assume k: "k < length scenes"
    have "int k < int (length scenes) - 1 \<longleftrightarrow> Suc k < length scenes" by auto
    with vals k clip_start_Suc [of k clips rnd] len
    show "clip_duration (clips ! k) = duration (scenes ! k) \<and>
              clip_audio (clips ! k) = audio_path (scenes ! k) \<and>
              crossfadein (clips ! k) = (if 0 < k then Some (rnd (4 / 10)) else None) \<and>
              crossfadeout (clips ! k) =
                (if Suc k < length scenes then Some (rnd (4 / 10)) else None) \<and>
              clip_start rnd clips (Suc k) = rnd (clip_start rnd clips k + duration (scenes ! k))"
      by simp
  qed
  with f len never_both_on_screen show ?thesis by blast
qed

lemma demo_video:
  "case create_video demo_lib (\<lambda>x. x) demo_scenes demo_settings (2, 2) None demo_world of
     Inl e \<Rightarrow> False
   | Inr (out_path, w') \<Rightarrow>
       (case files w' out_path of
          Some (VideoFile clips) \<Rightarrow>
            map clip_duration clips = [3 / 2, 2] \<and>
            map crossfadein clips = [None, Some (4 / 10)] \<and>
            map crossfadeout clips = [Some (4 / 10), None] \<and>
            clip_start (\<lambda>x. x) clips 0 = 0 \<and> clip_start (\<lambda>x. x) clips 1 = 3 / 2 \<and>
            clip_start (\<lambda>x. x) clips 2 = 7 / 2 \<and> length clips = 2 \<and>
            crossfadeout (clips ! 0) = Some (4 / 10) \<and> crossfadein (clips ! 1) = Some (4 / 10)
        | _ \<Rightarrow> False)"
  by (simp add: create_video_def render_logo_def demo_scenes_def demo_settings_def demo_world_def
      image_open_def audio_from_file_def save_pil_image_def fresh_uuid_def write_file_def
      demo_lib_sel Let_def clip_start_def str_def numeral_2_eq_2)

text \<open>
  C7 as stated fails for two scenes of 1.5 and 2 seconds: the first clip fades out and
  the second fades in, but the second starts at 1.5 seconds, when the first ends, so
  at no time are both on screen and their opacities are never blended with each other.
  The program says so itself: "Soft fades (not true crossfades, but pleasant)".
\<close>

theorem create_video_adjacent_clips_counterexample:
  "case create_video demo_lib (\<lambda>x. x) demo_scenes demo_settings (2, 2) None demo_world of
     Inl e \<Rightarrow> False
   | Inr (out_path, w') \<Rightarrow>
       (case files w' out_path of
          Some (VideoFile clips) \<Rightarrow>
            length clips = 2 \<and>
            crossfadeout (clips ! 0) = Some (4 / 10) \<and> crossfadein (clips ! 1) = Some (4 / 10) \<and>
            clip_start (\<lambda>x. x) clips 1 = 3 / 2 \<and>
            \<not> (\<exists>t. on_screen (\<lambda>x. x) clips 0 t \<and> on_screen (\<lambda>x. x) clips 1 t)
        | _ \<Rightarrow> False)"
  using demo_video never_both_on_screen [of "\<lambda>x. x" _ 0]
  by (auto split: sum.splits option.splits content.splits)

theorem create_video_fades_witness:
  "\<exists>out_path w' clips.
     create_video demo_lib (\<lambda>x. x) demo_scenes demo_settings (2, 2) None demo_world =
       Inr (out_path, w') \<and>
     files w' out_path = Some (VideoFile clips) \<and>
     map crossfadein clips = [None, Some (4 / 10)] \<and>
     map crossfadeout clips = [Some (4 / 10), None] \<and>
     map clip_duration clips = map duration demo_scenes"
proof -
  let ?r = "create_video demo_lib (\<lambda>x. x) demo_scenes demo_settings (2, 2) None demo_world"
  from demo_video obtain out_path w' where run: "?r = Inr (out_path, w')"
    by (cases ?r) auto
  with demo_video obtain clips0 where f: "files w' out_path = Some (VideoFile clips0)"
    by (cases "files w' out_path") (auto split: content.splits)
  from demo_video run f have m: "map crossfadein clips0 = [None, Some (4 / 10)]"
      "map crossfadeout clips0 = [Some (4 / 10), None]" "map clip_duration clips0 = [3 / 2, 2]"
    by simp_all
  from create_video_fades [OF run] f have "length clips0 = length demo_scenes" by auto
  with run f m show ?thesis by (auto simp: demo_scenes_def)
qed

end
